theory Spec2Isabelle
  imports Complex_Main "HOL-Library.Word" "HOL-Library.Sublist"
begin

section \<open>JavaScript strings\<close>

text \<open>
  A JavaScript string is a sequence of UTF-16 code units. The quiz texts of this application
  are Turkish, so most of them leave Latin-1; the model therefore keeps the full code unit
  and writes ASCII literals through \<open>lit\<close>.
\<close>

type_synonym jsstring = "16 word list"

definition cu :: "char \<Rightarrow> 16 word" where
  "cu c = of_char c"

definition lit :: "string \<Rightarrow> jsstring" where
  "lit s = map cu s"

text \<open>
  The code units matched by \<^verbatim>\<open>\s\<close> in a regular expression and removed by
  \<^verbatim>\<open>String.prototype.trim\<close>: ECMAScript WhiteSpace and LineTerminator.
\<close>

definition isWhiteSpace :: "16 word \<Rightarrow> bool" where
  "isWhiteSpace c \<longleftrightarrow>
     c = 0x09 \<or> c = 0x0A \<or> c = 0x0B \<or> c = 0x0C \<or> c = 0x0D \<or> c = 0x20 \<or> c = 0xA0 \<or>
     c = 0x1680 \<or> (0x2000 \<le> c \<and> c \<le> 0x200A) \<or> c = 0x2028 \<or> c = 0x2029 \<or>
     c = 0x202F \<or> c = 0x205F \<or> c = 0x3000 \<or> c = 0xFEFF"

definition trim :: "jsstring \<Rightarrow> jsstring" where
  "trim s = rev (dropWhile isWhiteSpace (rev (dropWhile isWhiteSpace s)))"

definition startsWith :: "jsstring \<Rightarrow> jsstring \<Rightarrow> bool" where
  "startsWith s p \<longleftrightarrow> take (length p) s = p"

fun includes_js :: "jsstring \<Rightarrow> jsstring \<Rightarrow> bool" where
  "includes_js [] p = (p = [])"
| "includes_js (c # cs) p = (startsWith (c # cs) p \<or> includes_js cs p)"

text \<open>
  \<^verbatim>\<open>s.split(sep)\<close> with a string separator: the pieces between the occurrences of
  \<open>sep\<close>, found left to right without overlap. \<open>acc\<close> holds the current piece, reversed.
\<close>

function splitFrom :: "jsstring \<Rightarrow> jsstring \<Rightarrow> jsstring \<Rightarrow> jsstring list" where
  "splitFrom sep acc [] = [rev acc]"
| "splitFrom sep acc (c # cs) =
     (if sep \<noteq> [] \<and> startsWith (c # cs) sep
      then rev acc # splitFrom sep [] (drop (length sep) (c # cs))
      else splitFrom sep (c # acc) cs)"
  by pat_completeness auto
termination
  by (relation "measure (\<lambda>(sep, acc, s). length s)") auto

definition split_js :: "jsstring \<Rightarrow> jsstring \<Rightarrow> jsstring list" where
  "split_js s sep = (if sep = [] then map (\<lambda>c. [c]) s else splitFrom sep [] s)"

section \<open>Messages\<close>

datatype role = User | Model

datatype msgtype = TextT | QuizT | ImageT | VideoT

text \<open>The interface \<^verbatim>\<open>Message\<close>; an optional field that is absent is \<open>None\<close>.\<close>

record message =
  role :: role
  text_m :: jsstring
  image_m :: "jsstring option"
  video_m :: "jsstring option"
  options :: "jsstring list option"
  correctAnswer :: "jsstring option"
  closeAnswer :: "jsstring option"
  type_m :: "msgtype option"

datatype error = TypeError

section \<open>The protocol parser\<close>

text \<open>
  The option pattern is built per label \<open>opt\<close> as
  \<^verbatim>\<open>opt\)\s*(.*?)(?=\s*[B-D]\)|\s*CEVAP:|\s*YAKIN:|$)\<close> with flag \<^verbatim>\<open>s\<close> (the dot
  matches every code unit) and without flag \<^verbatim>\<open>m\<close> (\<^verbatim>\<open>$\<close> is the end of the
  input only).

  \<open>lookahead s\<close> is the assertion \<^verbatim>\<open>(?=...)\<close> tried at the input rest \<open>s\<close>. In its first
  three alternatives the greedy \<^verbatim>\<open>\s*\<close> takes all the white space; giving some of it
  back cannot help, because the next code unit would then be white space and none of
  \<^verbatim>\<open>[B-D]\<close>, \<^verbatim>\<open>C\<close>, \<^verbatim>\<open>Y\<close> is.
\<close>

definition lookahead :: "jsstring \<Rightarrow> bool" where
  "lookahead s \<longleftrightarrow>
     (let t = dropWhile isWhiteSpace s in
        (case t of
           c # d # _ \<Rightarrow> cu CHR ''B'' \<le> c \<and> c \<le> cu CHR ''D'' \<and> d = cu CHR '')''
         | _ \<Rightarrow> False)
        \<or> startsWith t (lit ''CEVAP:'')
        \<or> startsWith t (lit ''YAKIN:''))
     \<or> s = []"

text \<open>
  The lazy group \<^verbatim>\<open>(.*?)\<close>: it takes no code unit at first and one more each time the
  assertion after it fails; the assertion holds at the end of the input, so the group always
  stops.
\<close>

fun lazyGroup :: "jsstring \<Rightarrow> jsstring" where
  "lazyGroup [] = []"
| "lazyGroup (c # cs) = (if lookahead (c # cs) then [] else c # lazyGroup cs)"

text \<open>
  \<^verbatim>\<open>block.match(regex)\<close> without flag \<^verbatim>\<open>g\<close>: the match at the leftmost start position,
  \<open>None\<close> for \<^verbatim>\<open>null\<close>, otherwise the capture \<^verbatim>\<open>match[1]\<close>. Once the literal
  \<^verbatim>\<open>opt)\<close> is found the rest of the pattern cannot fail, so the leftmost occurrence of the
  literal is the start of the match.
\<close>

fun optionMatch :: "jsstring \<Rightarrow> jsstring \<Rightarrow> jsstring option" where
  "optionMatch opt [] = None"
| "optionMatch opt (c # cs) =
     (if startsWith (c # cs) (opt @ lit '')'')
      then Some (lazyGroup (dropWhile isWhiteSpace (drop (length opt + 1) (c # cs))))
      else optionMatch opt cs)"

text \<open>The callback of \<^verbatim>\<open>["A", "B", "C", "D"].map\<close>.\<close>

definition extractOption :: "jsstring \<Rightarrow> jsstring \<Rightarrow> jsstring" where
  "extractOption block opt =
     (case optionMatch opt block of
        Some m \<Rightarrow> opt @ lit '') '' @ trim m
      | None \<Rightarrow> [])"

definition labels :: "jsstring list" where
  "labels = [lit ''A'', lit ''B'', lit ''C'', lit ''D'']"

definition extractOptions :: "jsstring \<Rightarrow> jsstring list" where
  "extractOptions block = filter (\<lambda>x. x \<noteq> []) (map (extractOption block) labels)"

text \<open>
  \<^verbatim>\<open>block.match(/CEVAP:\s*([A-D])/)\<close> and \<^verbatim>\<open>block.match(/YAKIN:\s*([A-D])/)\<close>: the
  leftmost occurrence of the marker that is followed, after white space, by one of A to D.
\<close>

fun labelMatch :: "jsstring \<Rightarrow> jsstring \<Rightarrow> jsstring option" where
  "labelMatch marker [] = None"
| "labelMatch marker (c # cs) =
     (if startsWith (c # cs) marker
      then (case dropWhile isWhiteSpace (drop (length marker) (c # cs)) of
              d # _ \<Rightarrow> if cu CHR ''A'' \<le> d \<and> d \<le> cu CHR ''D'' then Some [d]
                       else labelMatch marker cs
            | [] \<Rightarrow> labelMatch marker cs)
      else labelMatch marker cs)"

text \<open>
  The fallback stem of \<^verbatim>\<open>startQuiz\<close>, the literal "Soru yuklenemedi." whose
  seventh code unit is u with diaeresis (U+00FC), written here as a number.
\<close>

definition soruYuklenemedi :: jsstring where
  "soruYuklenemedi = lit ''Soru y'' @ [0xFC] @ lit ''klenemedi.''"

text \<open>
  \<^verbatim>\<open>block.split("SORU:")[1]?.split("A)")[0]?.trim() || fallback\<close> in
  \<^verbatim>\<open>startQuiz\<close>: a missing second piece and an empty stem both give the fallback.
\<close>

definition questionPartOr :: "jsstring \<Rightarrow> jsstring" where
  "questionPartOr block =
     (case split_js block (lit ''SORU:'') of
        _ # a # _ \<Rightarrow>
          (case split_js a (lit ''A)'') of
             x # _ \<Rightarrow> if trim x = [] then soruYuklenemedi else trim x
           | [] \<Rightarrow> soruYuklenemedi)
      | _ \<Rightarrow> soruYuklenemedi)"

text \<open>The callback of \<^verbatim>\<open>questionBlocks.map\<close> in \<^verbatim>\<open>startQuiz\<close>.\<close>

definition parseBlock :: "jsstring \<Rightarrow> message" where
  "parseBlock block =
     \<lparr> role = Model,
       text_m = questionPartOr block,
       image_m = None,
       video_m = None,
       options = Some (extractOptions block),
       correctAnswer = labelMatch (lit ''CEVAP:'') block,
       closeAnswer = labelMatch (lit ''YAKIN:'') block,
       type_m = Some QuizT \<rparr>"

text \<open>\<^verbatim>\<open>q => q.options && q.options.length > 0\<close>\<close>

definition hasOptions :: "message \<Rightarrow> bool" where
  "hasOptions q = (case options q of Some os \<Rightarrow> 0 < length os | None \<Rightarrow> False)"

text \<open>
  The parsing of \<^verbatim>\<open>startQuiz\<close>:
  \<^verbatim>\<open>raw.split("---").map(...).filter(q => q.options && q.options.length > 0)\<close>.
\<close>

definition parseQuestions :: "jsstring \<Rightarrow> message list" where
  "parseQuestions raw = filter hasOptions (map parseBlock (split_js raw (lit ''---'')))"

text \<open>
  The parsing of \<^verbatim>\<open>handleStudyMessage\<close>. \<^verbatim>\<open>aiText.split("SORU:")[1].split("A)")[0]\<close>
  has no optional chaining: a missing piece would be a \<^verbatim>\<open>TypeError\<close>.
\<close>

definition plainMessage :: "jsstring \<Rightarrow> message" where
  "plainMessage aiText =
     \<lparr> role = Model, text_m = aiText, image_m = None, video_m = None, options = None,
       correctAnswer = None, closeAnswer = None, type_m = None \<rparr>"

definition parseReply :: "jsstring \<Rightarrow> error + message" where
  "parseReply aiText =
     (if includes_js aiText (lit ''SORU:'') \<and> includes_js aiText (lit ''A)'')
      then (case split_js aiText (lit ''SORU:'') of
              _ # a # _ \<Rightarrow>
                (case split_js a (lit ''A)'') of
                   x # _ \<Rightarrow>
                     Inr \<lparr> role = Model,
                           text_m = trim x,
                           image_m = None,
                           video_m = None,
                           options = Some (extractOptions aiText),
                           correctAnswer = labelMatch (lit ''CEVAP:'') aiText,
                           closeAnswer = labelMatch (lit ''YAKIN:'') aiText,
                           type_m = Some QuizT \<rparr>
                 | [] \<Rightarrow> Inl TypeError)
            | _ \<Rightarrow> Inl TypeError)
      else Inr (plainMessage aiText))"

section \<open>JavaScript numbers\<close>

text \<open>
  A JavaScript number is an IEEE 754 double. The model keeps the real value of a finite
  double and rounds the exact result of every operation to the nearest double, ties to the
  even significand. \<open>binade x\<close> is the exponent \<open>e\<close> with \<open>2^e \<le> x < 2^(e+1)\<close> for positive
  \<open>x\<close>; the doubles between these bounds are the multiples of \<open>2^(e-52)\<close>, and below
  \<open>2^(-1022)\<close> the spacing stays \<open>2^(-1074)\<close>. Infinities and NaN are not modelled: the
  score of a quiz gains at most about 100 per answer and its divisor is the length of a
  non-empty list.
\<close>

function binade :: "real \<Rightarrow> int" where
  "binade x =
     (if 2 \<le> x then binade (x / 2) + 1
      else if 0 < x \<and> x < 1 then binade (2 * x) - 1
      else 0)"
  by pat_completeness auto
termination
proof (relation "measure (\<lambda>x. 2 * nat \<lceil>1 / x\<rceil> + nat \<lceil>x\<rceil>)")
  show "wf (measure (\<lambda>x. 2 * nat \<lceil>1 / x\<rceil> + nat \<lceil>x\<rceil>))" by simp
next
  fix x :: real assume a: "2 \<le> x"
  have 1: "\<lceil>x / 2\<rceil> < \<lceil>x\<rceil>"
  proof -
    have "x / 2 \<le> x - 1" using a by simp
    then have "\<lceil>x / 2\<rceil> \<le> \<lceil>x - 1\<rceil>" by (rule ceiling_mono)
    then show ?thesis by simp
  qed
  have 2: "\<lceil>1 / (x / 2)\<rceil> = 1" "\<lceil>1 / x\<rceil> = 1"
    using a by (simp_all add: ceiling_eq_iff field_simps)
  have "0 < \<lceil>x\<rceil>" using a by simp
  then show "(x / 2, x) \<in> measure (\<lambda>x. 2 * nat \<lceil>1 / x\<rceil> + nat \<lceil>x\<rceil>)"
    using 1 2 by simp
next
  fix x :: real assume a: "\<not> 2 \<le> x" "0 < x \<and> x < 1"
  define y where "y = 1 / x"
  have y: "1 < y" using a by (simp add: y_def)
  have c: "2 \<le> \<lceil>y\<rceil>" using y by (simp add: le_ceiling_iff)
  have "y \<le> of_int \<lceil>y\<rceil>" by (rule le_of_int_ceiling)
  moreover have "(2 :: real) \<le> of_int \<lceil>y\<rceil>" using c by linarith
  ultimately have "y / 2 \<le> of_int \<lceil>y\<rceil> - 1" by linarith
  then have "y / 2 \<le> of_int (\<lceil>y\<rceil> - 1)" by simp
  then have le: "\<lceil>y / 2\<rceil> \<le> \<lceil>y\<rceil> - 1" by (simp only: ceiling_le_iff)
  have "1 / (2 * x) = y / 2" by (simp add: y_def)
  then have "\<lceil>1 / (2 * x)\<rceil> = \<lceil>y / 2\<rceil>" by (simp only:)
  then have 1: "\<lceil>1 / (2 * x)\<rceil> \<le> \<lceil>1 / x\<rceil> - 1" using le unfolding y_def by linarith
  have 2: "\<lceil>x\<rceil> = 1" using a by (simp add: ceiling_eq_iff)
  have 3: "\<lceil>2 * x\<rceil> \<le> 2" using a by (simp add: ceiling_le_iff)
  have 4: "0 < \<lceil>2 * x\<rceil>" using a by simp
  have 5: "2 \<le> \<lceil>1 / x\<rceil>" using c by (simp add: y_def)
  have "2 * nat \<lceil>1 / (2 * x)\<rceil> + nat \<lceil>2 * x\<rceil> < 2 * nat \<lceil>1 / x\<rceil> + nat \<lceil>x\<rceil>"
    using 1 2 3 4 5 by linarith
  then show "(2 * x, x) \<in> measure (\<lambda>x. 2 * nat \<lceil>1 / x\<rceil> + nat \<lceil>x\<rceil>)"
    by (simp only: in_measure)
qed

declare binade.simps [simp del]

definition pow2 :: "int \<Rightarrow> real" where
  "pow2 e = (if 0 \<le> e then 2 ^ nat e else 1 / 2 ^ nat (- e))"

text \<open>The spacing of the doubles around a non-negative \<open>x\<close>.\<close>

definition quantum :: "real \<Rightarrow> real" where
  "quantum x = pow2 (max (binade x) (- 1022) - 52)"

text \<open>The nearest integer, a tie going to the even one.\<close>

definition roundEven :: "real \<Rightarrow> int" where
  "roundEven m =
     (if m - of_int \<lfloor>m\<rfloor> < 1 / 2 then \<lfloor>m\<rfloor>
      else if 1 / 2 < m - of_int \<lfloor>m\<rfloor> then \<lfloor>m\<rfloor> + 1
      else if even \<lfloor>m\<rfloor> then \<lfloor>m\<rfloor> else \<lfloor>m\<rfloor> + 1)"

text \<open>The double nearest to the real \<open>x\<close>.\<close>

definition fl :: "real \<Rightarrow> real" where
  "fl x = sgn x * (of_int (roundEven (\<bar>x\<bar> / quantum \<bar>x\<bar>)) * quantum \<bar>x\<bar>)"

text \<open>\<^verbatim>\<open>a + b\<close> and \<^verbatim>\<open>a / b\<close> on doubles.\<close>

definition dadd :: "real \<Rightarrow> real \<Rightarrow> real" where
  "dadd a b = fl (a + b)"

definition ddiv :: "real \<Rightarrow> real \<Rightarrow> real" where
  "ddiv a b = fl (a / b)"

section \<open>The quiz state\<close>

datatype status = Correct | Incorrect | Close

datatype view = Home | Study | Quiz | BattleRoyale | PdfLibrary

text \<open>
  The state hooks of \<^verbatim>\<open>App\<close> that the quiz and the chat use. \<^verbatim>\<open>quizScore\<close> is a
  JavaScript number: the field holds the real value of the double.
\<close>

record app =
  view :: view
  selectedBook :: "jsstring option"
  chatMessages :: "message list"
  quizScore :: real
  quizQuestions :: "message list"
  currentQuizIndex :: nat
  quizFinished :: bool
  answerStatus :: "nat \<rightharpoonup> status"
  selectedAnswer :: "jsstring option"
  aiInput :: jsstring
  aiResponse :: jsstring
  isGenerating :: bool
  selectedImage :: "jsstring option"

text \<open>The initial values of the hooks.\<close>

definition initial :: app where
  "initial =
     \<lparr> view = Home, selectedBook = None, chatMessages = [], quizScore = 0, quizQuestions = [],
       currentQuizIndex = 0, quizFinished = False, answerStatus = Map.empty,
       selectedAnswer = None, aiInput = [], aiResponse = [], isGenerating = False,
       selectedImage = None \<rparr>"

text \<open>
  Truthiness of a value of type \<^verbatim>\<open>string | null\<close> (or \<^verbatim>\<open>string | undefined\<close>):
  the empty string is falsy too.
\<close>

definition truthy :: "jsstring option \<Rightarrow> bool" where
  "truthy v = (case v of None \<Rightarrow> False | Some s \<Rightarrow> s \<noteq> [])"

text \<open>\<^verbatim>\<open>v || ""\<close>\<close>

definition orEmpty :: "jsstring option \<Rightarrow> jsstring" where
  "orEmpty v = (case v of None \<Rightarrow> [] | Some s \<Rightarrow> s)"

text \<open>The outcome of an awaited call: the promise is fulfilled with a value or rejected.\<close>

datatype 'a settled = Fulfilled 'a | Rejected

section \<open>Starting a quiz\<close>

text \<open>
  \<^verbatim>\<open>startQuiz\<close> runs in two parts. \<open>startQuiz_begin\<close> is everything up to the
  \<^verbatim>\<open>await\<close>: the resets, and the request, of which the model keeps the number of questions
  named in the prompt. \<open>startQuiz_settled\<close> is the continuation, run when the call settles:
  the \<^verbatim>\<open>try\<close> body on fulfilment, \<^verbatim>\<open>catch\<close> on rejection, \<^verbatim>\<open>finally\<close> after both.
\<close>

definition questionCount :: "bool \<Rightarrow> nat" where
  "questionCount isBattleRoyale = (if isBattleRoyale then 100 else 5)"

definition startQuiz_begin :: "bool \<Rightarrow> app \<Rightarrow> app \<times> nat" where
  "startQuiz_begin isBattleRoyale s =
     (s\<lparr> view := (if isBattleRoyale then BattleRoyale else Quiz),
         quizFinished := False,
         quizScore := 0,
         currentQuizIndex := 0,
         answerStatus := Map.empty,
         selectedAnswer := None,
         isGenerating := True \<rparr>,
      questionCount isBattleRoyale)"

definition startQuiz_settled :: "jsstring option settled \<Rightarrow> app \<Rightarrow> app" where
  "startQuiz_settled response s =
     (case response of
        Fulfilled t \<Rightarrow> s\<lparr> quizQuestions := parseQuestions (orEmpty t), isGenerating := False \<rparr>
      | Rejected \<Rightarrow> s\<lparr> isGenerating := False \<rparr>)"

section \<open>Answering\<close>

text \<open>
  The callback given to \<^verbatim>\<open>setTimeout\<close> closes over \<^verbatim>\<open>currentQuizIndex\<close> and
  \<^verbatim>\<open>quizQuestions.length\<close> as they were when the answer was given.
\<close>

record timeout =
  delay :: nat
  capturedIndex :: nat
  capturedLength :: nat

text \<open>
  \<^verbatim>\<open>handleQuizAnswer\<close>. The function is created anew by every render and closes over the
  constants of that render: \<open>r\<close> is the state the render saw, and from it come
  \<^verbatim>\<open>selectedAnswer\<close> in the guard, \<^verbatim>\<open>quizQuestions\<close> and \<^verbatim>\<open>currentQuizIndex\<close>. \<open>s\<close> is the
  state at the time of the call: a setter given a function (\<^verbatim>\<open>prev => ...\<close>) updates it.
  Reading \<^verbatim>\<open>currentQ.correctAnswer\<close> when \<^verbatim>\<open>quizQuestions[currentQuizIndex]\<close> is
  \<^verbatim>\<open>undefined\<close> is a \<^verbatim>\<open>TypeError\<close>. \<^verbatim>\<open>answer === currentQ.correctAnswer\<close> is false when
  the field is absent.
\<close>

definition handleQuizAnswer :: "app \<Rightarrow> jsstring \<Rightarrow> app \<Rightarrow> error + app \<times> timeout option" where
  "handleQuizAnswer r answer s =
     (if truthy (selectedAnswer r) then Inr (s, None)
      else if currentQuizIndex r < length (quizQuestions r) then
        (let currentQ = quizQuestions r ! currentQuizIndex r;
             n = length (quizQuestions r);
             s1 = s\<lparr> selectedAnswer := Some answer \<rparr>;
             (s2, status) =
               (if Some answer = correctAnswer currentQ
                then (s1\<lparr> quizScore := dadd (quizScore s1) (ddiv 100 (real n)) \<rparr>, Correct)
                else if Some answer = closeAnswer currentQ
                then (s1\<lparr> quizScore := dadd (quizScore s1) (ddiv 50 (real n)) \<rparr>, Close)
                else (s1, Incorrect));
             s3 = s2\<lparr> answerStatus := (answerStatus s2)(currentQuizIndex r \<mapsto> status) \<rparr>
         in Inr (s3, Some \<lparr> delay = 1500, capturedIndex = currentQuizIndex r,
                             capturedLength = n \<rparr>))
      else Inl TypeError)"

text \<open>
  The callback of \<^verbatim>\<open>setTimeout\<close>, run in the state \<open>s\<close> in which the timeout fires. The
  comparison uses the constants of the closure; \<^verbatim>\<open>setCurrentQuizIndex(prev => prev + 1)\<close>
  acts on \<open>s\<close>.
\<close>

definition timeoutCallback :: "timeout \<Rightarrow> app \<Rightarrow> app" where
  "timeoutCallback t s =
     (let s1 = s\<lparr> selectedAnswer := None \<rparr>
      in if int (capturedIndex t) < int (capturedLength t) - 1
         then s1\<lparr> currentQuizIndex := currentQuizIndex s1 + 1 \<rparr>
         else s1\<lparr> quizFinished := True \<rparr>)"

section \<open>The quiz view\<close>

text \<open>\<^verbatim>\<open>opt.charAt(0)\<close>\<close>

definition charAt0 :: "jsstring \<Rightarrow> jsstring" where
  "charAt0 s = take 1 s"

text \<open>
  The quiz section shows the answer buttons only while
  \<^verbatim>\<open>!quizFinished\<close>, \<^verbatim>\<open>!isGenerating\<close> and \<^verbatim>\<open>quizQuestions.length > 0\<close>.
\<close>

definition active :: "app \<Rightarrow> bool" where
  "active s \<longleftrightarrow>
     (view s = Quiz \<or> view s = BattleRoyale) \<and> \<not> quizFinished s \<and> \<not> isGenerating s \<and>
     0 < length (quizQuestions s)"

text \<open>
  The labels on the buttons, one per option of \<^verbatim>\<open>quizQuestions[currentQuizIndex]\<close>;
  rendering fails with a \<^verbatim>\<open>TypeError\<close> when that element is \<^verbatim>\<open>undefined\<close>.
\<close>

definition answerButtons :: "app \<Rightarrow> error + jsstring list" where
  "answerButtons s =
     (if active s then
        (if currentQuizIndex s < length (quizQuestions s)
         then Inr (case options (quizQuestions s ! currentQuizIndex s) of
                     Some os \<Rightarrow> map charAt0 os
                   | None \<Rightarrow> [])
         else Inl TypeError)
      else Inr [])"

text \<open>\<^verbatim>\<open>disabled={!!selectedAnswer}\<close>\<close>

definition buttonsDisabled :: "app \<Rightarrow> bool" where
  "buttonsDisabled s = truthy (selectedAnswer s)"

text \<open>
  A click on the button labelled \<open>c\<close> in the state \<open>s\<close>. React renders again after every
  event that sets state, so the button clicked belongs to the render of \<open>s\<close> and calls the
  handler of that render; a click reaches the handler only from an enabled button.
\<close>

definition clickAnswer :: "jsstring \<Rightarrow> app \<Rightarrow> error + app \<times> timeout option" where
  "clickAnswer c s =
     (case answerButtons s of
        Inl e \<Rightarrow> Inl e
      | Inr bs \<Rightarrow> if c \<in> set bs \<and> \<not> buttonsDisabled s then handleQuizAnswer s c s
                  else Inr (s, None))"

text \<open>\<^verbatim>\<open>Math.round\<close> rounds the double to the nearest integer, a half upwards.\<close>

definition mathRound :: "real \<Rightarrow> int" where
  "mathRound x = \<lfloor>x + 1 / 2\<rfloor>"

text \<open>
  The result screen, shown while \<^verbatim>\<open>quizFinished\<close>: the number \<^verbatim>\<open>Math.round(quizScore)\<close>
  followed by the fixed text \<^verbatim>\<open>/ 100\<close>.
\<close>

definition scoreShown :: "app \<Rightarrow> (int \<times> nat) option" where
  "scoreShown s =
     (if (view s = Quiz \<or> view s = BattleRoyale) \<and> quizFinished s
      then Some (mathRound (quizScore s), 100)
      else None)"

section \<open>Runs of the quiz\<close>

text \<open>
  The handlers run one at a time, each to its end or to its \<^verbatim>\<open>await\<close>. A run is a
  sequence of such events. The batch calls are numbered in the order in which
  \<^verbatim>\<open>startQuiz\<close> issues them: \<open>issued\<close> is the number of calls so far and \<open>pending\<close> lists
  the calls that have not settled. \<open>timers\<close> holds the pending timeouts, oldest first (they
  all have the same delay). The navigation bar offers both start buttons in every view, so
  \<open>StartQuiz\<close> is possible in every state; \<open>BatchSettles k r\<close> is the continuation of call
  \<open>k\<close> and does nothing when that call is not pending.
\<close>

datatype event =
    StartQuiz bool
  | BatchSettles nat "jsstring option settled"
  | Click jsstring
  | TimerFires

record world =
  app :: app
  issued :: nat
  pending :: "nat list"
  timers :: "timeout list"

definition step :: "event \<Rightarrow> world \<Rightarrow> error + world" where
  "step e w =
     (case e of
        StartQuiz b \<Rightarrow>
          Inr (w\<lparr> app := fst (startQuiz_begin b (app w)),
                  issued := issued w + 1,
                  pending := pending w @ [issued w] \<rparr>)
      | BatchSettles k r \<Rightarrow>
          (if k \<in> set (pending w)
           then Inr (w\<lparr> app := startQuiz_settled r (app w),
                        pending := removeAll k (pending w) \<rparr>)
           else Inr w)
      | Click c \<Rightarrow>
          (case clickAnswer c (app w) of
             Inl err \<Rightarrow> Inl err
           | Inr (s, None) \<Rightarrow> Inr (w\<lparr> app := s \<rparr>)
           | Inr (s, Some t) \<Rightarrow> Inr (w\<lparr> app := s, timers := timers w @ [t] \<rparr>))
      | TimerFires \<Rightarrow>
          (case timers w of
             [] \<Rightarrow> Inr w
           | t # ts \<Rightarrow> Inr (w\<lparr> app := timeoutCallback t (app w), timers := ts \<rparr>)))"

fun run :: "event list \<Rightarrow> world \<Rightarrow> error + world" where
  "run [] w = Inr w"
| "run (e # es) w = (case step e w of Inl err \<Rightarrow> Inl err | Inr w' \<Rightarrow> run es w')"

definition start :: world where
  "start = \<lparr> app = initial, issued = 0, pending = [], timers = [] \<rparr>"

text \<open>The events of answering: clicks on answer buttons and timeouts.\<close>

fun answering :: "event \<Rightarrow> bool" where
  "answering (Click c) = True"
| "answering TimerFires = True"
| "answering (StartQuiz b) = False"
| "answering (BatchSettles k r) = False"

text \<open>
  A session whose one batch call has been answered with the text \<open>t\<close>, nothing else pending:
  \<^verbatim>\<open>startQuiz\<close> called in the state \<open>s\<close> and its continuation run.
\<close>

definition loaded :: "bool \<Rightarrow> jsstring option \<Rightarrow> app \<Rightarrow> world" where
  "loaded b t s =
     \<lparr> app = startQuiz_settled (Fulfilled t) (fst (startQuiz_begin b s)),
       issued = 1, pending = [], timers = [] \<rparr>"

text \<open>
  A JavaScript array has fewer than \<open>2^32\<close> elements. For a list of \<open>n\<close> items \<open>roof n\<close>
  bounds the score that rounded additions of rounded shares can reach.
\<close>

definition roof :: "nat \<Rightarrow> real" where
  "roof n = 100 + real n / 2 ^ 45"

text \<open>
  The states of a session while it is being answered. \<open>idle\<close>: no answer is on display, the
  cursor is on a question (or there is none) and the score is at most the share of the
  questions before the cursor. \<open>waiting\<close>: an answer is on display and its timeout is the
  only one pending. \<open>over\<close>: the quiz is finished, the cursor on the last question. In all of
  them the quiz view is shown, nothing is loading and no stored option is the empty string.
\<close>

definition idle :: "world \<Rightarrow> bool" where
  "idle w \<longleftrightarrow>
     timers w = [] \<and> \<not> truthy (selectedAnswer (app w)) \<and> \<not> quizFinished (app w) \<and>
     ((quizQuestions (app w) = [] \<and> quizScore (app w) = 0) \<or>
      (currentQuizIndex (app w) < length (quizQuestions (app w)) \<and>
       quizScore (app w) * real (length (quizQuestions (app w)))
         \<le> roof (length (quizQuestions (app w))) * real (currentQuizIndex (app w))))"

definition waiting :: "world \<Rightarrow> bool" where
  "waiting w \<longleftrightarrow>
     timers w = [\<lparr> delay = 1500, capturedIndex = currentQuizIndex (app w),
                   capturedLength = length (quizQuestions (app w)) \<rparr>] \<and>
     truthy (selectedAnswer (app w)) \<and> \<not> quizFinished (app w) \<and>
     currentQuizIndex (app w) < length (quizQuestions (app w)) \<and>
     quizScore (app w) * real (length (quizQuestions (app w)))
       \<le> roof (length (quizQuestions (app w))) * real (currentQuizIndex (app w) + 1)"

definition over :: "world \<Rightarrow> bool" where
  "over w \<longleftrightarrow>
     timers w = [] \<and> \<not> truthy (selectedAnswer (app w)) \<and> quizFinished (app w) \<and>
     currentQuizIndex (app w) + 1 = length (quizQuestions (app w)) \<and>
     quizScore (app w) \<le> roof (length (quizQuestions (app w)))"

definition optionsNonEmpty :: "app \<Rightarrow> bool" where
  "optionsNonEmpty s \<longleftrightarrow>
     (\<forall>q \<in> set (quizQuestions s). \<forall>os. options q = Some os \<longrightarrow> [] \<notin> set os)"

definition sessionInv :: "world \<Rightarrow> bool" where
  "sessionInv w \<longleftrightarrow>
     (view (app w) = Quiz \<or> view (app w) = BattleRoyale) \<and> \<not> isGenerating (app w) \<and>
     length (quizQuestions (app w)) < 2 ^ 32 \<and>
     optionsNonEmpty (app w) \<and> 0 \<le> quizScore (app w) \<and> (idle w \<or> waiting w \<or> over w)"

section \<open>The chat and the assistant box\<close>

text \<open>\<^verbatim>\<open>v || d\<close> on an optional string.\<close>

definition orElse :: "jsstring option \<Rightarrow> jsstring \<Rightarrow> jsstring" where
  "orElse v d = (if truthy v then orEmpty v else d)"

text \<open>
  The fixed Turkish texts, with their non-ASCII code units written as numbers: the reply of
  \<^verbatim>\<open>handleAiGenerate\<close> when the call fails ("Sorry, I cannot produce an answer right now.
  Please try again."), and the captions of a generated image and video, which quote the prompt.
\<close>

definition uzgunum :: jsstring where
  "uzgunum =
     [0xDC] @ lit ''zg'' @ [0xFC] @ lit ''n'' @ [0xFC] @ lit ''m, '' @ [0x15F] @ lit ''u an yan'' @
     [0x131] @ lit ''t '' @ [0xFC] @ lit ''retemiyorum. L'' @ [0xFC] @ lit ''tfen tekrar deneyin.''"

definition isteSeninIcin :: jsstring where
  "isteSeninIcin =
     [0x130, 0x15F] @ lit ''te senin i'' @ [0xE7] @ lit ''in haz'' @ [0x131] @ lit ''rlad'' @
     [0x131, 0x11F, 0x131] @ lit ''m ''"

definition imageCaption :: "jsstring \<Rightarrow> jsstring" where
  "imageCaption prompt =
     isteSeninIcin @ [0x22] @ prompt @ [0x22] @ lit '' g'' @ [0xF6] @ lit ''rseli:''"

definition videoCaption :: "jsstring \<Rightarrow> jsstring" where
  "videoCaption prompt = isteSeninIcin @ [0x22] @ prompt @ [0x22] @ lit '' videosu:''"

text \<open>
  \<^verbatim>\<open>handleAiGenerate\<close>, given how the one call it awaits settles
  (\<^verbatim>\<open>response.text\<close> on fulfilment).
\<close>

definition handleAiGenerate :: "jsstring option settled \<Rightarrow> app \<Rightarrow> app" where
  "handleAiGenerate response s =
     (if trim (aiInput s) = [] then s
      else (case response of
              Fulfilled t \<Rightarrow> s\<lparr> aiResponse := orEmpty t, isGenerating := False \<rparr>
            | Rejected \<Rightarrow> s\<lparr> aiResponse := uzgunum, isGenerating := False \<rparr>))"

text \<open>A video operation as the status call returns it: \<^verbatim>\<open>done\<close> and the video's URI.\<close>

record operation =
  done_op :: bool
  uri :: "jsstring option"

text \<open>
  What the services answer during one \<^verbatim>\<open>handleStudyMessage\<close>: for the image call the
  \<^verbatim>\<open>inlineData.data\<close> of each part of the first candidate (\<open>None\<close> for a part without
  inline data), the text of the description call, the operation of the video call, the
  answers to the successive status calls, and the text of the tutoring call.
\<close>

record upstream =
  imageCall :: "jsstring option list settled"
  describeCall :: "jsstring option settled"
  videoCall :: "operation settled"
  statusCalls :: "operation settled list"
  tutorCall :: "jsstring option settled"

text \<open>The \<^verbatim>\<open>for\<close> loop over the parts: the first part with inline data.\<close>

fun firstInline :: "jsstring option list \<Rightarrow> jsstring option" where
  "firstInline [] = None"
| "firstInline (None # ps) = firstInline ps"
| "firstInline (Some d # ps) = Some d"

text \<open>
  The polling loop \<^verbatim>\<open>while (!operation.done)\<close>. The source puts no bound on it: \<open>None\<close>
  says that the loop is still running when the answers given are used up.
\<close>

fun pollVideo :: "operation \<Rightarrow> operation settled list \<Rightarrow> operation settled option" where
  "pollVideo op [] = (if done_op op then Some (Fulfilled op) else None)"
| "pollVideo op (r # rs) =
     (if done_op op then Some (Fulfilled op)
      else (case r of Rejected \<Rightarrow> Some Rejected | Fulfilled op' \<Rightarrow> pollVideo op' rs))"

definition userMessage :: "jsstring \<Rightarrow> jsstring option \<Rightarrow> message" where
  "userMessage txt img =
     \<lparr> role = User, text_m = txt, image_m = img, video_m = None, options = None,
       correctAnswer = None, closeAnswer = None, type_m = None \<rparr>"

definition imageMessage :: "jsstring \<Rightarrow> jsstring \<Rightarrow> message" where
  "imageMessage txt url =
     \<lparr> role = Model, text_m = txt, image_m = Some url, video_m = None, options = None,
       correctAnswer = None, closeAnswer = None, type_m = Some ImageT \<rparr>"

definition videoMessage :: "jsstring \<Rightarrow> jsstring \<Rightarrow> message" where
  "videoMessage txt url =
     \<lparr> role = Model, text_m = txt, image_m = None, video_m = Some url, options = None,
       correctAnswer = None, closeAnswer = None, type_m = Some VideoT \<rparr>"

text \<open>
  \<^verbatim>\<open>handleStudyMessage\<close> from its call to its end, given the answers of the services;
  \<open>None\<close> when the polling loop does not end. \<open>s1\<close> is the state after the statements before
  \<^verbatim>\<open>try\<close>. Every \<^verbatim>\<open>throw\<close> and every rejected call ends in \<^verbatim>\<open>catch\<close>, which logs and
  plays a sound and sets no state, and then in \<^verbatim>\<open>finally\<close>. The prompt is the text without
  its command prefix (\<^verbatim>\<open>text.replace\<close> removes the first occurrence, which is the prefix).
\<close>

definition handleStudyMessage ::
  "jsstring \<Rightarrow> jsstring option \<Rightarrow> jsstring \<Rightarrow> upstream \<Rightarrow> app \<Rightarrow> app option" where
  "handleStudyMessage txt img apiKey up s =
     (if (trim txt = [] \<and> \<not> truthy img) \<or> selectedBook s = None then Some s
      else
        (let s1 = s\<lparr> chatMessages := chatMessages s @ [userMessage txt img],
                      aiInput := [], selectedImage := None, isGenerating := True \<rparr>;
             caught = s1\<lparr> isGenerating := False \<rparr>;
             append = (\<lambda>m. s1\<lparr> chatMessages := chatMessages s1 @ [m], isGenerating := False \<rparr>)
         in if startsWith txt (lit ''/resim '') then
              (let prompt = drop (length (lit ''/resim '')) txt
               in case imageCall up of
                    Rejected \<Rightarrow> Some caught
                  | Fulfilled parts \<Rightarrow>
                      (case firstInline parts of
                         None \<Rightarrow> Some caught
                       | Some d \<Rightarrow>
                           (case describeCall up of
                              Rejected \<Rightarrow> Some caught
                            | Fulfilled t \<Rightarrow>
                                Some (append (imageMessage (orElse t (imageCaption prompt))
                                                (lit ''data:image/png;base64,'' @ d))))))
            else if startsWith txt (lit ''/video '') then
              (let prompt = drop (length (lit ''/video '')) txt
               in case videoCall up of
                    Rejected \<Rightarrow> Some caught
                  | Fulfilled op \<Rightarrow>
                      (case pollVideo op (statusCalls up) of
                         None \<Rightarrow> None
                       | Some Rejected \<Rightarrow> Some caught
                       | Some (Fulfilled op') \<Rightarrow>
                           (if truthy (uri op')
                            then Some (append (videoMessage (videoCaption prompt)
                                                 (orEmpty (uri op') @ lit ''&key='' @ apiKey)))
                            else Some caught)))
            else
              (case tutorCall up of
                 Rejected \<Rightarrow> Some caught
               | Fulfilled t \<Rightarrow>
                   (case parseReply (orEmpty t) of
                      Inl e \<Rightarrow> Some caught
                    | Inr m \<Rightarrow> Some (append m)))))"

section \<open>The specification's wording, for comparison\<close>

text \<open>
  Batch parsing as the specification words it: the text is split on \<^verbatim>\<open>---\<close>, each
  segment goes through the steps of the single-message parser, quiz-shape detection
  included, and a segment that yields no option is discarded.
\<close>

definition parseBatch_spec :: "jsstring \<Rightarrow> message list" where
  "parseBatch_spec raw =
     filter hasOptions
       (concat (map (\<lambda>seg. case parseReply seg of Inr m \<Rightarrow> [m] | Inl e \<Rightarrow> [])
                  (split_js raw (lit ''---''))))"

text \<open>
  The text before the first occurrence of a marker (the whole text when there is none) and
  the text after it (\<open>None\<close> when there is none).
\<close>

fun beforeFirst :: "jsstring \<Rightarrow> jsstring \<Rightarrow> jsstring" where
  "beforeFirst [] m = []"
| "beforeFirst (c # cs) m = (if startsWith (c # cs) m then [] else c # beforeFirst cs m)"

fun afterFirst :: "jsstring \<Rightarrow> jsstring \<Rightarrow> jsstring option" where
  "afterFirst [] m = None"
| "afterFirst (c # cs) m =
     (if startsWith (c # cs) m then Some (drop (length m) (c # cs)) else afterFirst cs m)"

text \<open>
  The stem of a segment in the batch parser, in words: the text after the first
  \<^verbatim>\<open>SORU:\<close>, up to the next \<^verbatim>\<open>SORU:\<close> and then up to the first \<^verbatim>\<open>A)\<close>, trimmed; the fixed
  fallback text when there is no \<^verbatim>\<open>SORU:\<close> or when nothing is left after trimming.
\<close>

definition segmentStem :: "jsstring \<Rightarrow> jsstring" where
  "segmentStem b =
     (case afterFirst b (lit ''SORU:'') of
        None \<Rightarrow> soruYuklenemedi
      | Some a \<Rightarrow>
          if trim (beforeFirst (beforeFirst a (lit ''SORU:'')) (lit ''A)'')) = []
          then soruYuklenemedi
          else trim (beforeFirst (beforeFirst a (lit ''SORU:'')) (lit ''A)'')))"

text \<open>The two-segment text that the specification gives as a test of batch parsing.\<close>

definition twoSegments :: jsstring where
  "twoSegments =
     lit ''SORU: Q1 A) a B) b C) c D) d CEVAP: A --- SORU: Q2 A) a B) b C) c D) d CEVAP: B''"

text \<open>A segment that holds at least one of the four label markers.\<close>

definition hasLabelMarker :: "jsstring \<Rightarrow> bool" where
  "hasLabelMarker b \<longleftrightarrow>
     includes_js b (lit ''A)'') \<or> includes_js b (lit ''B)'') \<or>
     includes_js b (lit ''C)'') \<or> includes_js b (lit ''D)'')"

text \<open>
  Where an option text ends: at the end of the input, or where, after white space if any,
  one of these markers begins. \<^verbatim>\<open>A)\<close> is not among them.
\<close>

definition endMarkers :: "jsstring list" where
  "endMarkers = [lit ''B)'', lit ''C)'', lit ''D)'', lit ''CEVAP:'', lit ''YAKIN:'']"

definition terminator :: "jsstring \<Rightarrow> bool" where
  "terminator s \<longleftrightarrow>
     s = [] \<or> (\<exists>m \<in> set endMarkers. startsWith (dropWhile isWhiteSpace s) m)"

section \<open>Failing calls\<close>

text \<open>
  The ways in which the services fail a \<^verbatim>\<open>handleStudyMessage\<close>: a call is rejected, the
  image call returns no inline data, or the finished video operation carries no URI.
\<close>

definition upstreamFails :: "jsstring \<Rightarrow> upstream \<Rightarrow> bool" where
  "upstreamFails txt up =
     (if startsWith txt (lit ''/resim '') then
        (case imageCall up of
           Rejected \<Rightarrow> True
         | Fulfilled parts \<Rightarrow>
             (case firstInline parts of
                None \<Rightarrow> True
              | Some d \<Rightarrow> describeCall up = Rejected))
      else if startsWith txt (lit ''/video '') then
        (case videoCall up of
           Rejected \<Rightarrow> True
         | Fulfilled op \<Rightarrow>
             (case pollVideo op (statusCalls up) of
                None \<Rightarrow> False
              | Some Rejected \<Rightarrow> True
              | Some (Fulfilled op') \<Rightarrow> \<not> truthy (uri op')))
      else tutorCall up = Rejected)"

section \<open>Example sessions\<close>

text \<open>A batch of one question whose close label equals its correct label.\<close>

definition oneQuestion :: jsstring where
  "oneQuestion = lit ''SORU: q A) a B) b CEVAP: A YAKIN: A''"

text \<open>A quiz of one question, answered; the display delay has passed.\<close>

definition oneQuestionRun :: "event list" where
  "oneQuestionRun =
     [StartQuiz False, BatchSettles 0 (Fulfilled (Some oneQuestion)), Click (lit ''A''),
      TimerFires]"

text \<open>
  Two batches, of two and of three questions, and a run in which the quiz is started twice
  before either call has settled: the answer to the first call arrives, one question is
  answered, then the answer to the second call arrives and two more questions are answered.
\<close>

definition twoQuestions :: jsstring where
  "twoQuestions = lit ''SORU: p1 A) a CEVAP: A --- SORU: p2 A) a CEVAP: A''"

definition threeQuestions :: jsstring where
  "threeQuestions =
     lit ''SORU: q1 A) a CEVAP: A --- SORU: q2 A) a CEVAP: A --- SORU: q3 A) a CEVAP: A''"

definition overlappingRun :: "event list" where
  "overlappingRun =
     [StartQuiz False, StartQuiz False,
      BatchSettles 0 (Fulfilled (Some twoQuestions)), Click (lit ''A''), TimerFires,
      BatchSettles 1 (Fulfilled (Some threeQuestions)), Click (lit ''A''), TimerFires,
      Click (lit ''A''), TimerFires]"

text \<open>
  The quiz is started twice; the answer to the second, newest call arrives first and the
  answer to the first call after it.
\<close>

definition staleRun :: "event list" where
  "staleRun =
     [StartQuiz False, StartQuiz False,
      BatchSettles 1 (Fulfilled (Some threeQuestions)),
      BatchSettles 0 (Fulfilled (Some twoQuestions))]"

text \<open>
  The quiz is started twice and the answer to the first call arrives: the call of the
  session that is now running is still pending.
\<close>

definition loadingRun :: "event list" where
  "loadingRun =
     [StartQuiz False, StartQuiz False, BatchSettles 0 (Fulfilled (Some twoQuestions))]"

text \<open>A quiz of two questions, both answered, each display delay passed.\<close>

definition twoAnswers :: "event list" where
  "twoAnswers = [Click (lit ''A''), TimerFires, Click (lit ''A''), TimerFires]"

text \<open>One batch of six questions, and a quiz on it in which all six answers are correct.\<close>

definition sixQuestions :: jsstring where
  "sixQuestions =
     lit (''SORU: r1 A) a CEVAP: A --- SORU: r2 A) a CEVAP: A --- SORU: r3 A) a CEVAP: A --- '' @
          ''SORU: r4 A) a CEVAP: A --- SORU: r5 A) a CEVAP: A --- SORU: r6 A) a CEVAP: A'')"

definition sixAnswers :: "event list" where
  "sixAnswers =
     [Click (lit ''A''), TimerFires, Click (lit ''A''), TimerFires, Click (lit ''A''), TimerFires,
      Click (lit ''A''), TimerFires, Click (lit ''A''), TimerFires, Click (lit ''A''), TimerFires]"

definition sixCorrectRun :: "event list" where
  "sixCorrectRun =
     [StartQuiz False, BatchSettles 0 (Fulfilled (Some sixQuestions))] @ sixAnswers"

text \<open>A segment with both capture markers, and one with neither.\<close>

definition fullSegment :: jsstring where
  "fullSegment = lit ''SORU: q A) a B) b CEVAP: B YAKIN: A''"

definition bareSegment :: jsstring where
  "bareSegment = lit '' A) a''"

text \<open>
  A chat on the book \<^verbatim>\<open>fen\<close> in which the user asks for an image, and services whose image
  call is fulfilled by one part without inline data.
\<close>

definition chatOnFen :: app where
  "chatOnFen = initial\<lparr> view := Study, selectedBook := Some (lit ''fen'') \<rparr>"

definition noImage :: upstream where
  "noImage =
     \<lparr> imageCall = Fulfilled [None], describeCall = Rejected, videoCall = Rejected,
       statusCalls = [], tutorCall = Rejected \<rparr>"

section \<open>Strings: helper lemmas\<close>

lemma startsWith_append: "startsWith xs p \<Longrightarrow> startsWith (xs @ ys) p"
  unfolding startsWith_def
  by (metis append_eq_conv_conj append.assoc append_take_drop_id)

lemma startsWith_decomp: "startsWith s p \<Longrightarrow> s = p @ drop (length p) s"
  unfolding startsWith_def by (metis append_take_drop_id)

lemma includes_js_short: "length s < length p \<Longrightarrow> \<not> includes_js s p"
  by (induction s) (auto simp: startsWith_def)

lemma splitFrom_nonempty: "splitFrom sep acc s \<noteq> []"
  by (induction sep acc s rule: splitFrom.induct) auto

lemma splitFrom_two:
  "sep \<noteq> [] \<Longrightarrow> includes_js s sep \<Longrightarrow> \<exists>a b r. splitFrom sep acc s = a # b # r"
proof (induction sep acc s rule: splitFrom.induct)
  case (1 sep acc)
  then show ?case by simp
next
  case (2 sep acc c cs)
  show ?case
  proof (cases "startsWith (c # cs) sep")
    case True
    then show ?thesis
      using 2(3) splitFrom_nonempty[of sep "[]" "drop (length sep) (c # cs)"]
      by (cases "splitFrom sep [] (drop (length sep) (c # cs))") auto
  next
    case False
    then show ?thesis using 2 by auto
  qed
qed

lemma splitFrom_none: "\<not> includes_js s sep \<Longrightarrow> splitFrom sep acc s = [rev acc @ s]"
  by (induction sep acc s rule: splitFrom.induct) auto

section \<open>The option pattern\<close>

lemma optionMatch_None:
  "optionMatch opt block = None \<longleftrightarrow> \<not> includes_js block (opt @ lit '')'')"
  by (induction block) (auto simp: lit_def)

lemma startsWith_two:
  "startsWith t [a, b] = (case t of c # d # _ \<Rightarrow> c = a \<and> d = b | _ \<Rightarrow> False)"
  by (simp add: startsWith_def split: list.splits)

lemma class_BD:
  "(cu CHR ''B'' \<le> c \<and> c \<le> cu CHR ''D'' \<and> P) \<longleftrightarrow>
   ((c = cu CHR ''B'' \<or> c = cu CHR ''C'' \<or> c = cu CHR ''D'') \<and> P)"
  by (simp add: cu_def word_le_nat_alt word_unat_eq_iff) arith

lemma lookahead_terminator: "lookahead s \<longleftrightarrow> terminator s"
proof -
  have m: "lit ''B)'' = [cu CHR ''B'', cu CHR '')'']" "lit ''C)'' = [cu CHR ''C'', cu CHR '')'']"
    "lit ''D)'' = [cu CHR ''D'', cu CHR '')'']"
    by (simp_all add: lit_def)
  have "\<And>t. (case t of c # d # _ \<Rightarrow> cu CHR ''B'' \<le> c \<and> c \<le> cu CHR ''D'' \<and> d = cu CHR '')''
              | _ \<Rightarrow> False) \<longleftrightarrow>
            startsWith t (lit ''B)'') \<or> startsWith t (lit ''C)'') \<or> startsWith t (lit ''D)'')"
    unfolding m startsWith_two by (auto simp: class_BD split: list.splits)
  then show ?thesis
    unfolding lookahead_def terminator_def endMarkers_def Let_def by auto
qed

lemma lazyGroup_split:
  "\<exists>tail. s = lazyGroup s @ tail \<and> lookahead tail \<and>
          (\<forall>k < length (lazyGroup s). \<not> lookahead (drop k s))"
proof (induction s)
  case Nil
  then show ?case by (simp add: lookahead_def)
next
  case (Cons c cs)
  show ?case
  proof (cases "lookahead (c # cs)")
    case True
    then show ?thesis by auto
  next
    case False
    from Cons obtain tail where t: "cs = lazyGroup cs @ tail" "lookahead tail"
      "\<forall>k < length (lazyGroup cs). \<not> lookahead (drop k cs)" by blast
    have "\<forall>k < length (lazyGroup (c # cs)). \<not> lookahead (drop k (c # cs))"
    proof (intro allI impI)
      fix k assume "k < length (lazyGroup (c # cs))"
      then show "\<not> lookahead (drop k (c # cs))"
        using False t(3) by (cases k) auto
    qed
    moreover have "c # cs = lazyGroup (c # cs) @ tail" using False t(1) by simp
    ultimately show ?thesis using t(2) by blast
  qed
qed

lemma optionMatch_Some:
  "optionMatch opt block = Some m \<Longrightarrow>
   \<exists>pre rest. block = pre @ opt @ lit '')'' @ rest \<and>
      \<not> includes_js (pre @ opt) (opt @ lit '')'') \<and>
      m = lazyGroup (dropWhile isWhiteSpace rest)"
proof (induction block)
  case Nil
  then show ?case by simp
next
  case (Cons c cs)
  show ?case
  proof (cases "startsWith (c # cs) (opt @ lit '')'')")
    case True
    let ?rest = "drop (length opt + 1) (c # cs)"
    have "c # cs = (opt @ lit '')'') @ drop (length (opt @ lit '')'')) (c # cs)"
      using startsWith_decomp[OF True] .
    then have 1: "c # cs = [] @ opt @ lit '')'' @ ?rest"
      by (simp add: lit_def)
    have 2: "\<not> includes_js ([] @ opt) (opt @ lit '')'')"
      by (simp add: includes_js_short lit_def)
    have 3: "m = lazyGroup (dropWhile isWhiteSpace ?rest)"
      using True Cons.prems by simp
    show ?thesis using 1 2 3 by blast
  next
    case False
    then have "optionMatch opt cs = Some m" using Cons.prems by simp
    from Cons.IH[OF this] obtain pre rest where
      pr: "cs = pre @ opt @ lit '')'' @ rest" "\<not> includes_js (pre @ opt) (opt @ lit '')'')"
       "m = lazyGroup (dropWhile isWhiteSpace rest)" by blast
    have "\<not> startsWith (c # pre @ opt) (opt @ lit '')'')"
      using False pr(1)
        startsWith_append[of "c # pre @ opt" "opt @ lit '')''" "lit '')'' @ rest"] by auto
    then have "\<not> includes_js ((c # pre) @ opt) (opt @ lit '')'')" using pr(2) by simp
    moreover have "c # cs = (c # pre) @ opt @ lit '')'' @ rest" using pr(1) by simp
    ultimately show ?thesis using pr(3) by blast
  qed
qed

lemma extractOption_shape:
  "extractOption b opt = [] \<or> (\<exists>t. extractOption b opt = opt @ lit '') '' @ t)"
  by (simp add: extractOption_def split: option.splits)

lemma extractOption_empty:
  "extractOption b opt = [] \<longleftrightarrow> \<not> includes_js b (opt @ lit '')'')"
  using optionMatch_None[of opt b]
  by (cases "optionMatch opt b") (simp_all add: extractOption_def lit_def)

lemma charAt0_label: "length opt = 1 \<Longrightarrow> charAt0 (opt @ r) = opt"
  by (simp add: charAt0_def)

lemma labels_length: "l \<in> set labels \<Longrightarrow> length l = 1"
  by (auto simp: labels_def lit_def)

lemma labels_distinct: "distinct labels"
  by (simp add: labels_def lit_def cu_def)

lemma extractOption_charAt0:
  "l \<in> set labels \<Longrightarrow> extractOption b l \<noteq> [] \<Longrightarrow> charAt0 (extractOption b l) = l"
  using extractOption_shape[of b l] charAt0_label labels_length by fastforce

lemma subseq_filter_map:
  "(\<forall>l \<in> set ls. f l = [] \<or> charAt0 (f l) = l) \<Longrightarrow>
   subseq (map charAt0 (filter (\<lambda>x. x \<noteq> []) (map f ls))) ls"
proof (induction ls)
  case Nil
  then show ?case by simp
next
  case (Cons l ls)
  then have ih: "subseq (map charAt0 (filter (\<lambda>x. x \<noteq> []) (map f ls))) ls" by simp
  show ?case
  proof (cases "f l = []")
    case True
    then show ?thesis using ih by (simp add: list_emb_Cons)
  next
    case False
    then have "charAt0 (f l) = l" using Cons.prems by simp
    then show ?thesis using False ih by simp
  qed
qed

lemma extractOptions_member:
  "x \<in> set (extractOptions b) \<longleftrightarrow> (\<exists>l \<in> set labels. x = extractOption b l \<and> x \<noteq> [])"
  by (auto simp: extractOptions_def)

lemma extractOptions_subseq: "subseq (map charAt0 (extractOptions b)) labels"
  unfolding extractOptions_def
  by (rule subseq_filter_map) (use extractOption_charAt0 in blast)

lemma extractOptions_prefix:
  "x \<in> set (extractOptions b) \<Longrightarrow> startsWith x (charAt0 x @ lit '') '')"
proof -
  assume "x \<in> set (extractOptions b)"
  then obtain l where l: "l \<in> set labels" "x = extractOption b l" "x \<noteq> []"
    using extractOptions_member by blast
  then obtain t where t: "x = l @ lit '') '' @ t" using extractOption_shape[of b l] by auto
  have "charAt0 x = l" using l extractOption_charAt0 by simp
  then show ?thesis using t by (simp add: startsWith_def)
qed

lemma extractOptions_empty: "extractOptions b = [] \<longleftrightarrow> \<not> hasLabelMarker b"
proof -
  have l: "lit ''A)'' = lit ''A'' @ lit '')''" "lit ''B)'' = lit ''B'' @ lit '')''"
      "lit ''C)'' = lit ''C'' @ lit '')''" "lit ''D)'' = lit ''D'' @ lit '')''"
    by (simp_all add: lit_def)
  show ?thesis
    unfolding extractOptions_def hasLabelMarker_def l labels_def
    by (simp add: filter_empty_conv extractOption_empty)
qed

lemma word_AD:
  "(0x41::16 word) \<le> d \<Longrightarrow> d \<le> 0x44 \<Longrightarrow> d = 0x41 \<or> d = 0x42 \<or> d = 0x43 \<or> d = 0x44"
  by (simp add: word_le_nat_alt word_unat_eq_iff) arith

lemma labelMatch_range: "labelMatch marker s = Some l \<Longrightarrow> l \<in> set labels"
proof (induction s)
  case Nil
  then show ?case by simp
next
  case (Cons c cs)
  then show ?case
    using word_AD
    by (auto simp: labels_def lit_def cu_def split: if_splits list.splits)
qed

section \<open>The two parsers\<close>

lemma hasOptions_parseBlock: "hasOptions (parseBlock b) \<longleftrightarrow> hasLabelMarker b"
  using extractOptions_empty[of b] by (simp add: hasOptions_def parseBlock_def)

lemma parseQuestions_member:
  "q \<in> set (parseQuestions raw) \<Longrightarrow>
   \<exists>b. q = parseBlock b \<and> extractOptions b \<noteq> [] \<and> options q = Some (extractOptions b)"
  by (auto simp: parseQuestions_def hasOptions_def parseBlock_def)

lemma parseReply_total: "\<exists>q. parseReply aiText = Inr q"
proof (cases "includes_js aiText (lit ''SORU:'') \<and> includes_js aiText (lit ''A)'')")
  case True
  then obtain a b r where s: "split_js aiText (lit ''SORU:'') = a # b # r"
    using splitFrom_two[of "lit ''SORU:''" aiText "[]"] by (auto simp: split_js_def lit_def)
  obtain x xs where t: "split_js b (lit ''A)'') = x # xs"
    using splitFrom_nonempty[of "lit ''A)''" "[]" b]
    by (cases "split_js b (lit ''A)'')") (auto simp: split_js_def lit_def)
  show ?thesis using True s t by (simp add: parseReply_def)
next
  case False
  then show ?thesis by (auto simp add: parseReply_def)
qed

lemma parseReply_quiz:
  assumes "parseReply aiText = Inr q" "type_m q = Some QuizT"
  shows "options q = Some (extractOptions aiText) \<and> extractOptions aiText \<noteq> [] \<and>
         correctAnswer q = labelMatch (lit ''CEVAP:'') aiText"
proof -
  have inc: "includes_js aiText (lit ''SORU:'') \<and> includes_js aiText (lit ''A)'')"
    using assms by (auto simp: parseReply_def plainMessage_def split: if_splits)
  then have "extractOptions aiText \<noteq> []"
    using extractOptions_empty by (simp add: hasLabelMarker_def)
  moreover have "options q = Some (extractOptions aiText) \<and>
      correctAnswer q = labelMatch (lit ''CEVAP:'') aiText"
    using assms(1) inc by (auto simp: parseReply_def split: list.splits)
  ultimately show ?thesis by simp
qed

section \<open>Claims about the parser\<close>

lemma subseq_keeps_distinct: "subseq xs ys \<Longrightarrow> distinct ys \<Longrightarrow> distinct xs"
proof (induction rule: list_emb.induct)
  case (list_emb_Nil ys)
  then show ?case by simp
next
  case (list_emb_Cons xs ys y)
  then show ?case by simp
next
  case (list_emb_Cons2 x y xs ys)
  have "set xs \<subseteq> set ys" using list_emb_Cons2(2) by (auto elim: list_emb_set)
  then show ?case using list_emb_Cons2 by auto
qed

text \<open>
  C10. Every quiz item that either parser emits lists its options in label order: the first
  code units of the options, read in order, form a subsequence of A, B, C, D, so no label
  occurs twice and none out of order; and each option begins with its own label followed by
  \<^verbatim>\<open>") "\<close>, so the label is recovered by \<^verbatim>\<open>charAt(0)\<close>.
\<close>

theorem options_in_label_order:
  "(\<forall>q \<in> set (parseQuestions raw).
      \<exists>os. options q = Some os \<and> subseq (map charAt0 os) labels \<and>
           distinct (map charAt0 os) \<and>
           (\<forall>x \<in> set os. startsWith x (charAt0 x @ lit '') ''))) \<and>
   (\<forall>q. parseReply aiText = Inr q \<and> type_m q = Some QuizT \<longrightarrow>
      (\<exists>os. options q = Some os \<and> subseq (map charAt0 os) labels \<and>
            distinct (map charAt0 os) \<and>
            (\<forall>x \<in> set os. startsWith x (charAt0 x @ lit '') ''))))"
proof -
  have ok: "\<And>b. subseq (map charAt0 (extractOptions b)) labels \<and>
      distinct (map charAt0 (extractOptions b)) \<and>
      (\<forall>x \<in> set (extractOptions b). startsWith x (charAt0 x @ lit '') ''))"
    using extractOptions_subseq extractOptions_prefix labels_distinct subseq_keeps_distinct
    by blast
  show ?thesis
  proof (intro conjI ballI allI impI)
    fix q assume "q \<in> set (parseQuestions raw)"
    then obtain b where "options q = Some (extractOptions b)"
      using parseQuestions_member by blast
    then show "\<exists>os. options q = Some os \<and> subseq (map charAt0 os) labels \<and>
           distinct (map charAt0 os) \<and>
           (\<forall>x \<in> set os. startsWith x (charAt0 x @ lit '') ''))"
      using ok by simp
  next
    fix q assume "parseReply aiText = Inr q \<and> type_m q = Some QuizT"
    then have "options q = Some (extractOptions aiText)"
      using parseReply_quiz by blast
    then show "\<exists>os. options q = Some os \<and> subseq (map charAt0 os) labels \<and>
           distinct (map charAt0 os) \<and>
           (\<forall>x \<in> set os. startsWith x (charAt0 x @ lit '') ''))"
      using ok by simp
  qed
qed

theorem options_in_label_order_witness:
  "map options (parseQuestions (lit ''SORU: q D) d B) b'')) =
     [Some [lit ''B) b'', lit ''D) d'']] \<and>
   subseq (map charAt0 [lit ''B) b'', lit ''D) d'']) labels \<and>
   distinct (map charAt0 [lit ''B) b'', lit ''D) d'']) \<and>
   startsWith (lit ''B) b'') (charAt0 (lit ''B) b'') @ lit '') '') \<and>
   startsWith (lit ''D) d'') (charAt0 (lit ''D) d'') @ lit '') '')"
proof -
  let ?raw = "lit ''SORU: q D) d B) b''"
  have e: "map options (parseQuestions ?raw) = [Some [lit ''B) b'', lit ''D) d'']]"
    by (simp add: parseQuestions_def parseBlock_def hasOptions_def extractOptions_def
        extractOption_def labels_def split_js_def lit_def cu_def startsWith_def
        isWhiteSpace_def lookahead_def trim_def)
  then obtain q where q: "q \<in> set (parseQuestions ?raw)"
      "options q = Some [lit ''B) b'', lit ''D) d'']"
    by (auto simp: map_eq_Cons_conv)
  from options_in_label_order[of ?raw "[]"] q
  have "subseq (map charAt0 [lit ''B) b'', lit ''D) d'']) labels \<and>
        distinct (map charAt0 [lit ''B) b'', lit ''D) d'']) \<and>
        (\<forall>x \<in> set [lit ''B) b'', lit ''D) d'']. startsWith x (charAt0 x @ lit '') ''))"
    by fastforce
  then show ?thesis using e by simp
qed

lemmas parser_eval =
  parseQuestions_def parseBlock_def hasOptions_def extractOptions_def extractOption_def
  labels_def split_js_def lit_def cu_def startsWith_def isWhiteSpace_def lookahead_def
  trim_def questionPartOr_def soruYuklenemedi_def charAt0_def

text \<open>
  C4, as the code has it. Every item of a parsed batch has a non-empty option list, and so
  has every quiz message of the single-message parser, which never raises; a correct label,
  when present, is one of A, B, C, D. The parser does not compare the correct label with the
  labels of the item's own options.
\<close>

theorem parsed_items_invariant:
  "(\<forall>q \<in> set (parseQuestions raw).
      (\<exists>os. options q = Some os \<and> os \<noteq> []) \<and>
      (correctAnswer q = None \<or> (\<exists>l \<in> set labels. correctAnswer q = Some l))) \<and>
   (\<exists>q. parseReply aiText = Inr q \<and>
      (type_m q = Some QuizT \<longrightarrow>
         (\<exists>os. options q = Some os \<and> os \<noteq> []) \<and>
         (correctAnswer q = None \<or> (\<exists>l \<in> set labels. correctAnswer q = Some l))))"
proof (intro conjI ballI)
  fix q assume "q \<in> set (parseQuestions raw)"
  then obtain b where b: "q = parseBlock b" "extractOptions b \<noteq> []"
      "options q = Some (extractOptions b)"
    using parseQuestions_member by blast
  then show "\<exists>os. options q = Some os \<and> os \<noteq> []" by simp
  have "correctAnswer q = labelMatch (lit ''CEVAP:'') b" using b(1) by (simp add: parseBlock_def)
  then show "correctAnswer q = None \<or> (\<exists>l \<in> set labels. correctAnswer q = Some l)"
    using labelMatch_range[of "lit ''CEVAP:''" b] by (cases "correctAnswer q") auto
next
  obtain q where q: "parseReply aiText = Inr q" using parseReply_total by blast
  have "type_m q = Some QuizT \<longrightarrow>
         (\<exists>os. options q = Some os \<and> os \<noteq> []) \<and>
         (correctAnswer q = None \<or> (\<exists>l \<in> set labels. correctAnswer q = Some l))"
  proof
    assume "type_m q = Some QuizT"
    from parseReply_quiz[OF q this]
    show "(\<exists>os. options q = Some os \<and> os \<noteq> []) \<and>
         (correctAnswer q = None \<or> (\<exists>l \<in> set labels. correctAnswer q = Some l))"
      using labelMatch_range[of "lit ''CEVAP:''" aiText] by (cases "correctAnswer q") auto
  qed
  then show "\<exists>q. parseReply aiText = Inr q \<and>
      (type_m q = Some QuizT \<longrightarrow>
         (\<exists>os. options q = Some os \<and> os \<noteq> []) \<and>
         (correctAnswer q = None \<or> (\<exists>l \<in> set labels. correctAnswer q = Some l)))"
    using q by blast
qed

theorem parsed_items_invariant_witness:
  "map options (parseQuestions (lit ''SORU: x A) a CEVAP: B --- no question here'')) =
     [Some [lit ''A) a'']] \<and>
   [lit ''A) a''] \<noteq> [] \<and>
   map correctAnswer (parseQuestions (lit ''SORU: x A) a CEVAP: B --- no question here'')) =
     [Some (lit ''B'')] \<and>
   (\<exists>l \<in> set labels. Some (lit ''B'') = Some l)"
proof -
  let ?raw = "lit ''SORU: x A) a CEVAP: B --- no question here''"
  have e: "map options (parseQuestions ?raw) = [Some [lit ''A) a'']]"
    "map correctAnswer (parseQuestions ?raw) = [Some (lit ''B'')]"
    by (simp_all add: parser_eval)
  then obtain q where q: "q \<in> set (parseQuestions ?raw)" "correctAnswer q = Some (lit ''B'')"
    by (auto simp: map_eq_Cons_conv)
  from parsed_items_invariant[of ?raw "[]"] q
  have "\<exists>l \<in> set labels. Some (lit ''B'') = Some l" by fastforce
  then show ?thesis using e by simp
qed

text \<open>
  C4 as stated fails: the batch \<^verbatim>\<open>SORU: x A) a CEVAP: B\<close> gives one item whose only option
  is A and whose correct label is B.
\<close>

theorem correctLabel_not_among_options:
  "map options (parseQuestions (lit ''SORU: x A) a CEVAP: B'')) = [Some [lit ''A) a'']] \<and>
   map correctAnswer (parseQuestions (lit ''SORU: x A) a CEVAP: B'')) = [Some (lit ''B'')] \<and>
   lit ''B'' \<notin> set (map charAt0 [lit ''A) a''])"
  by (simp add: parser_eval)

text \<open>
  C7, as the code has it. For a label \<open>opt\<close> of A to D: when the block holds no \<^verbatim>\<open>opt)\<close>
  the label yields the empty string and no stored option carries it. Otherwise take the
  first \<^verbatim>\<open>opt)\<close> (a space after it is not needed) and skip the white space after it; the
  option text \<open>cap\<close> is the shortest stretch after which a terminator stands: the end of the
  input, or, after white space if any, one of \<^verbatim>\<open>B)\<close>, \<^verbatim>\<open>C)\<close>, \<^verbatim>\<open>D)\<close>, \<^verbatim>\<open>CEVAP:\<close>,
  \<^verbatim>\<open>YAKIN:\<close>. The stored option is the label, \<^verbatim>\<open>") "\<close> and the trimmed text, also when
  that text is empty.
\<close>

theorem extractOption_characterised:
  assumes "opt \<in> set labels"
  shows "(\<not> includes_js block (opt @ lit '')'') \<longrightarrow>
            extractOption block opt = [] \<and> opt \<notin> set (map charAt0 (extractOptions block))) \<and>
         (includes_js block (opt @ lit '')'') \<longrightarrow>
            (\<exists>pre rest cap tail.
               block = pre @ opt @ lit '')'' @ rest \<and>
               \<not> includes_js (pre @ opt) (opt @ lit '')'') \<and>
               dropWhile isWhiteSpace rest = cap @ tail \<and>
               terminator tail \<and>
               (\<forall>k < length cap. \<not> terminator (drop k (cap @ tail))) \<and>
               extractOption block opt = opt @ lit '') '' @ trim cap \<and>
               extractOption block opt \<in> set (extractOptions block)))"
proof (intro conjI impI)
  assume n: "\<not> includes_js block (opt @ lit '')'')"
  then show "extractOption block opt = []" using extractOption_empty by blast
  show "opt \<notin> set (map charAt0 (extractOptions block))"
  proof
    assume "opt \<in> set (map charAt0 (extractOptions block))"
    then obtain x where x: "x \<in> set (extractOptions block)" "charAt0 x = opt" by auto
    then obtain l where l: "l \<in> set labels" "x = extractOption block l" "x \<noteq> []"
      using extractOptions_member by blast
    then have "l = opt" using extractOption_charAt0 x(2) by auto
    then show False using l n extractOption_empty by blast
  qed
next
  assume i: "includes_js block (opt @ lit '')'')"
  then obtain m where m: "optionMatch opt block = Some m"
    using optionMatch_None[of opt block] by (cases "optionMatch opt block") auto
  from optionMatch_Some[OF m] obtain pre rest where
    pr: "block = pre @ opt @ lit '')'' @ rest" "\<not> includes_js (pre @ opt) (opt @ lit '')'')"
       "m = lazyGroup (dropWhile isWhiteSpace rest)" by blast
  from lazyGroup_split[of "dropWhile isWhiteSpace rest"] obtain tail where
    t: "dropWhile isWhiteSpace rest = m @ tail" "lookahead tail"
       "\<forall>k < length m. \<not> lookahead (drop k (dropWhile isWhiteSpace rest))"
    using pr(3) by auto
  have e: "extractOption block opt = opt @ lit '') '' @ trim m"
    using m by (simp add: extractOption_def)
  then have ne: "extractOption block opt \<noteq> []" by (simp add: lit_def)
  have mem: "extractOption block opt \<in> set (extractOptions block)"
    using extractOptions_member assms ne by blast
  have min: "\<forall>k < length m. \<not> terminator (drop k (m @ tail))"
    using t(1) t(3) lookahead_terminator by auto
  show "\<exists>pre rest cap tail.
               block = pre @ opt @ lit '')'' @ rest \<and>
               \<not> includes_js (pre @ opt) (opt @ lit '')'') \<and>
               dropWhile isWhiteSpace rest = cap @ tail \<and>
               terminator tail \<and>
               (\<forall>k < length cap. \<not> terminator (drop k (cap @ tail))) \<and>
               extractOption block opt = opt @ lit '') '' @ trim cap \<and>
               extractOption block opt \<in> set (extractOptions block)"
    using pr(1) pr(2) t(1) t(2) min e mem lookahead_terminator by blast
qed

theorem extractOption_characterised_witness:
  "lit ''A'' \<in> set labels \<and>
   includes_js (lit ''SORU: q A)x B)y'') (lit ''A'' @ lit '')'') \<and>
   (\<exists>pre rest cap tail.
      lit ''SORU: q A)x B)y'' = pre @ lit ''A'' @ lit '')'' @ rest \<and>
      \<not> includes_js (pre @ lit ''A'') (lit ''A'' @ lit '')'') \<and>
      dropWhile isWhiteSpace rest = cap @ tail \<and>
      terminator tail \<and>
      (\<forall>k < length cap. \<not> terminator (drop k (cap @ tail))) \<and>
      extractOption (lit ''SORU: q A)x B)y'') (lit ''A'') = lit ''A'' @ lit '') '' @ trim cap \<and>
      extractOption (lit ''SORU: q A)x B)y'') (lit ''A'') \<in>
        set (extractOptions (lit ''SORU: q A)x B)y'')))"
proof -
  have l: "lit ''A'' \<in> set labels" by (simp add: labels_def)
  have i: "includes_js (lit ''SORU: q A)x B)y'') (lit ''A'' @ lit '')'')"
    by (simp add: lit_def cu_def startsWith_def)
  show ?thesis
    using extractOption_characterised[OF l, of "lit ''SORU: q A)x B)y''"] l i by blast
qed

text \<open>
  C7 as stated fails: \<^verbatim>\<open>SORU: q A)x B)y\<close> holds neither \<^verbatim>\<open>"A) "\<close> nor \<^verbatim>\<open>"B) "\<close>, and
  both options are extracted.
\<close>

theorem option_without_space_extracted:
  "\<not> includes_js (lit ''SORU: q A)x B)y'') (lit ''A) '') \<and>
   \<not> includes_js (lit ''SORU: q A)x B)y'') (lit ''B) '') \<and>
   extractOptions (lit ''SORU: q A)x B)y'') = [lit ''A) x'', lit ''B) y'']"
  by (simp add: parser_eval)


section \<open>The batch parser segment by segment\<close>

lemma splitFrom_pieces:
  "sep \<noteq> [] \<Longrightarrow>
   splitFrom sep acc s =
     (rev acc @ beforeFirst s sep) #
     (case afterFirst s sep of None \<Rightarrow> [] | Some a \<Rightarrow> splitFrom sep [] a)"
  by (induction sep acc s rule: splitFrom.induct) auto

lemma split_js_pieces:
  "sep \<noteq> [] \<Longrightarrow>
   split_js s sep =
     beforeFirst s sep # (case afterFirst s sep of None \<Rightarrow> [] | Some a \<Rightarrow> split_js a sep)"
  using splitFrom_pieces[of sep "[]" s]
  by (cases "afterFirst s sep") (simp_all add: split_js_def)

lemma afterFirst_None: "m \<noteq> [] \<Longrightarrow> afterFirst s m = None \<longleftrightarrow> \<not> includes_js s m"
  by (induction s) auto

lemma questionPartOr_segmentStem: "questionPartOr b = segmentStem b"
proof -
  have s: "lit ''SORU:'' \<noteq> []" "lit ''A)'' \<noteq> []" by (simp_all add: lit_def)
  show ?thesis
  proof (cases "afterFirst b (lit ''SORU:'')")
    case None
    then show ?thesis
      using split_js_pieces[OF s(1), of b] by (simp add: questionPartOr_def segmentStem_def)
  next
    case (Some a)
    have 1: "split_js b (lit ''SORU:'') = beforeFirst b (lit ''SORU:'') # split_js a (lit ''SORU:'')"
      using split_js_pieces[OF s(1), of b] Some by simp
    obtain r where 2: "split_js a (lit ''SORU:'') = beforeFirst a (lit ''SORU:'') # r"
      using split_js_pieces[OF s(1), of a] by simp
    obtain r' where 3: "split_js (beforeFirst a (lit ''SORU:'')) (lit ''A)'') =
        beforeFirst (beforeFirst a (lit ''SORU:'')) (lit ''A)'') # r'"
      using split_js_pieces[OF s(2), of "beforeFirst a (lit ''SORU:'')"] by simp
    show ?thesis
      using Some 1 2 3 by (simp add: questionPartOr_def segmentStem_def)
  qed
qed

lemma not_white_AD: "cu CHR ''A'' \<le> d \<Longrightarrow> d \<le> cu CHR ''D'' \<Longrightarrow> \<not> isWhiteSpace d"
  using word_AD[of d] by (auto simp: cu_def isWhiteSpace_def)

lemma labelMatch_absent: "afterFirst b m = None \<Longrightarrow> labelMatch m b = None"
  by (induction b) (auto split: if_splits)

lemma labelMatch_first:
  assumes "afterFirst b m = Some (ws @ d # rest)" "list_all isWhiteSpace ws"
    "cu CHR ''A'' \<le> d" "d \<le> cu CHR ''D''"
  shows "labelMatch m b = Some [d]"
  using assms(1)
proof (induction b)
  case Nil
  then show ?case by simp
next
  case (Cons c cs)
  show ?case
  proof (cases "startsWith (c # cs) m")
    case True
    then have "drop (length m) (c # cs) = ws @ d # rest" using Cons.prems by simp
    moreover have "dropWhile isWhiteSpace (ws @ d # rest) = d # rest"
      using assms(2) not_white_AD[OF assms(3) assms(4)]
      by (simp add: dropWhile_append3 list_all_iff)
    ultimately show ?thesis using True assms(3) assms(4) by simp
  next
    case False
    then show ?thesis using Cons by simp
  qed
qed

lemma parseReply_parseBlock:
  assumes "includes_js b (lit ''SORU:'')" "includes_js b (lit ''A)'')"
  shows "\<exists>q. parseReply b = Inr q \<and> type_m q = Some QuizT \<and>
            options q = options (parseBlock b) \<and>
            correctAnswer q = correctAnswer (parseBlock b) \<and>
            closeAnswer q = closeAnswer (parseBlock b) \<and>
            text_m (parseBlock b) = (if text_m q = [] then soruYuklenemedi else text_m q)"
proof -
  obtain a c r where s: "split_js b (lit ''SORU:'') = a # c # r"
    using splitFrom_two[of "lit ''SORU:''" b "[]"] assms(1) by (auto simp: split_js_def lit_def)
  obtain x xs where t: "split_js c (lit ''A)'') = x # xs"
    using splitFrom_nonempty[of "lit ''A)''" "[]" c]
    by (cases "split_js c (lit ''A)'')") (auto simp: split_js_def lit_def)
  show ?thesis
    using assms s t by (simp add: parseReply_def parseBlock_def questionPartOr_def)
qed

text \<open>
  C2, as the code has it. The batch parser splits on \<^verbatim>\<open>---\<close> and maps every segment that
  holds one of the four label markers to a quiz item, in order; the segments that hold none
  are dropped, so the result is no longer than the list of segments. It does not test for
  the quiz shape. Of each segment it takes the stem (\<open>segmentStem\<close>: the text after the first
  \<^verbatim>\<open>SORU:\<close> up to the next \<^verbatim>\<open>SORU:\<close> and the first \<^verbatim>\<open>A)\<close>, trimmed, and the fixed fallback
  text when there is no \<^verbatim>\<open>SORU:\<close> or the stem is empty), the options per label, and the
  correct and the close label: none when the marker is absent, and the letter when the first
  \<^verbatim>\<open>CEVAP:\<close> (\<^verbatim>\<open>YAKIN:\<close>) is followed, after white space if any, by one of A to D. On a
  segment that holds \<^verbatim>\<open>SORU:\<close> and \<^verbatim>\<open>A)\<close> these are the results of the single-message
  parser, but for the fallback that replaces an empty stem. The two-segment example gives
  two items with the stems Q1 and Q2 and the correct labels A and B.
\<close>

theorem parseQuestions_segments:
  "parseQuestions raw = map parseBlock (filter hasLabelMarker (split_js raw (lit ''---''))) \<and>
   length (parseQuestions raw) \<le> length (split_js raw (lit ''---'')) \<and>
   (\<not> includes_js b (lit ''SORU:'') \<longrightarrow> text_m (parseBlock b) = soruYuklenemedi) \<and>
   map correctAnswer (parseQuestions twoSegments) = [Some (lit ''A''), Some (lit ''B'')] \<and>
   map text_m (parseQuestions twoSegments) = [lit ''Q1'', lit ''Q2''] \<and>
   text_m (parseBlock b) = segmentStem b \<and>
   options (parseBlock b) = Some (extractOptions b) \<and>
   (afterFirst b (lit ''CEVAP:'') = None \<longrightarrow> correctAnswer (parseBlock b) = None) \<and>
   (afterFirst b (lit ''CEVAP:'') = Some (ws @ d # rest) \<and> list_all isWhiteSpace ws \<and>
    cu CHR ''A'' \<le> d \<and> d \<le> cu CHR ''D'' \<longrightarrow> correctAnswer (parseBlock b) = Some [d]) \<and>
   (afterFirst b (lit ''YAKIN:'') = None \<longrightarrow> closeAnswer (parseBlock b) = None) \<and>
   (afterFirst b (lit ''YAKIN:'') = Some (ws' @ d' # rest') \<and> list_all isWhiteSpace ws' \<and>
    cu CHR ''A'' \<le> d' \<and> d' \<le> cu CHR ''D'' \<longrightarrow> closeAnswer (parseBlock b) = Some [d']) \<and>
   (includes_js b (lit ''SORU:'') \<and> includes_js b (lit ''A)'') \<longrightarrow>
      (\<exists>q. parseReply b = Inr q \<and> type_m q = Some QuizT \<and>
           options q = options (parseBlock b) \<and>
           correctAnswer q = correctAnswer (parseBlock b) \<and>
           closeAnswer q = closeAnswer (parseBlock b) \<and>
           text_m (parseBlock b) = (if text_m q = [] then soruYuklenemedi else text_m q))) \<and>
   (afterFirst b (lit ''SORU:'') = Some a \<longrightarrow>
      text_m (parseBlock b) =
        (if trim (beforeFirst (beforeFirst a (lit ''SORU:'')) (lit ''A)'')) = []
         then soruYuklenemedi
         else trim (beforeFirst (beforeFirst a (lit ''SORU:'')) (lit ''A)''))))"
proof -
  have f: "filter hasOptions (map parseBlock xs) = map parseBlock (filter hasLabelMarker xs)"
    for xs
    by (induction xs) (simp_all add: hasOptions_parseBlock)
  have 1: "parseQuestions raw =
      map parseBlock (filter hasLabelMarker (split_js raw (lit ''---'')))"
    using f by (simp add: parseQuestions_def)
  have 2: "length (parseQuestions raw) \<le> length (split_js raw (lit ''---''))"
    unfolding 1 by simp
  have 3: "text_m (parseBlock b) = soruYuklenemedi" if "\<not> includes_js b (lit ''SORU:'')"
  proof -
    have "split_js b (lit ''SORU:'') = [b]"
      using that splitFrom_none[of b "lit ''SORU:''" "[]"] by (simp add: split_js_def lit_def)
    then show ?thesis by (simp add: parseBlock_def questionPartOr_def)
  qed
  have 4: "map correctAnswer (parseQuestions twoSegments) = [Some (lit ''A''), Some (lit ''B'')]"
    "map text_m (parseQuestions twoSegments) = [lit ''Q1'', lit ''Q2'']"
    unfolding twoSegments_def by (simp_all add: parser_eval)
  have 5: "text_m (parseBlock b) = segmentStem b"
    by (simp add: parseBlock_def questionPartOr_segmentStem)
  have 6: "options (parseBlock b) = Some (extractOptions b)"
    by (simp add: parseBlock_def)
  have 7: "correctAnswer (parseBlock b) = labelMatch (lit ''CEVAP:'') b"
    "closeAnswer (parseBlock b) = labelMatch (lit ''YAKIN:'') b"
    by (simp_all add: parseBlock_def)
  have 8: "text_m (parseBlock b) =
        (if trim (beforeFirst (beforeFirst a (lit ''SORU:'')) (lit ''A)'')) = []
         then soruYuklenemedi
         else trim (beforeFirst (beforeFirst a (lit ''SORU:'')) (lit ''A)'')))"
    if "afterFirst b (lit ''SORU:'') = Some a"
    unfolding 5 using that by (simp add: segmentStem_def)
  show ?thesis
    using 1 2 3 4 5 6 8 parseReply_parseBlock[of b]
      labelMatch_absent[of b "lit ''CEVAP:''"] labelMatch_absent[of b "lit ''YAKIN:''"]
      labelMatch_first[of b "lit ''CEVAP:''" ws d rest]
      labelMatch_first[of b "lit ''YAKIN:''" ws' d' rest']
    unfolding 7 by blast
qed

lemma fullSegment_facts:
  "afterFirst fullSegment (lit ''CEVAP:'') = Some (lit '' '' @ cu CHR ''B'' # lit '' YAKIN: A'')"
  "afterFirst fullSegment (lit ''YAKIN:'') = Some (lit '' '' @ cu CHR ''A'' # [])"
  "list_all isWhiteSpace (lit '' '')"
  "cu CHR ''A'' \<le> cu CHR ''B''" "cu CHR ''B'' \<le> cu CHR ''D''"
  "cu CHR ''A'' \<le> cu CHR ''A''" "cu CHR ''A'' \<le> cu CHR ''D''"
  "includes_js fullSegment (lit ''SORU:'')" "includes_js fullSegment (lit ''A)'')"
  "afterFirst fullSegment (lit ''SORU:'') = Some (lit '' q A) a B) b CEVAP: B YAKIN: A'')"
  "afterFirst (lit ''SORU: A) a'') (lit ''SORU:'') = Some (lit '' A) a'')"
  "trim (beforeFirst (beforeFirst (lit '' A) a'') (lit ''SORU:'')) (lit ''A)'')) = []"
  "trim (beforeFirst (beforeFirst (lit '' q A) a B) b CEVAP: B YAKIN: A'') (lit ''SORU:''))
     (lit ''A)'')) = lit ''q''"
  "segmentStem fullSegment = lit ''q''"
  "afterFirst bareSegment (lit ''CEVAP:'') = None"
  "afterFirst bareSegment (lit ''YAKIN:'') = None"
  "\<not> includes_js bareSegment (lit ''SORU:'')"
  unfolding fullSegment_def bareSegment_def segmentStem_def
  by (simp_all add: lit_def cu_def startsWith_def isWhiteSpace_def trim_def)

theorem parseQuestions_segments_witness:
  "length (split_js (lit ''no question --- A) a'') (lit ''---'')) = 2 \<and>
   parseQuestions (lit ''no question --- A) a'') = [parseBlock bareSegment] \<and>
   \<not> includes_js bareSegment (lit ''SORU:'') \<and>
   text_m (parseBlock bareSegment) = soruYuklenemedi \<and>
   afterFirst bareSegment (lit ''CEVAP:'') = None \<and>
   correctAnswer (parseBlock bareSegment) = None \<and>
   afterFirst bareSegment (lit ''YAKIN:'') = None \<and>
   closeAnswer (parseBlock bareSegment) = None \<and>
   afterFirst fullSegment (lit ''CEVAP:'') =
     Some (lit '' '' @ cu CHR ''B'' # lit '' YAKIN: A'') \<and>
   correctAnswer (parseBlock fullSegment) = Some [cu CHR ''B''] \<and>
   afterFirst fullSegment (lit ''YAKIN:'') = Some (lit '' '' @ cu CHR ''A'' # []) \<and>
   closeAnswer (parseBlock fullSegment) = Some [cu CHR ''A''] \<and>
   text_m (parseBlock fullSegment) = lit ''q'' \<and>
   includes_js fullSegment (lit ''SORU:'') \<and> includes_js fullSegment (lit ''A)'') \<and>
   (\<exists>q. parseReply fullSegment = Inr q \<and> type_m q = Some QuizT \<and>
        options q = options (parseBlock fullSegment) \<and>
        closeAnswer q = closeAnswer (parseBlock fullSegment)) \<and>
   afterFirst (lit ''SORU: A) a'') (lit ''SORU:'') = Some (lit '' A) a'') \<and>
   trim (beforeFirst (beforeFirst (lit '' A) a'') (lit ''SORU:'')) (lit ''A)'')) = [] \<and>
   text_m (parseBlock (lit ''SORU: A) a'')) = soruYuklenemedi"
proof -
  let ?raw = "lit ''no question --- A) a''"
  have s: "split_js ?raw (lit ''---'') = [lit ''no question '', bareSegment]"
    by (simp add: split_js_def lit_def cu_def startsWith_def bareSegment_def)
  have f: "\<not> hasLabelMarker (lit ''no question '')" "hasLabelMarker bareSegment"
    by (simp_all add: hasLabelMarker_def lit_def cu_def startsWith_def bareSegment_def)
  have bare: "parseQuestions ?raw = [parseBlock bareSegment] \<and>
      text_m (parseBlock bareSegment) = soruYuklenemedi \<and>
      correctAnswer (parseBlock bareSegment) = None \<and>
      closeAnswer (parseBlock bareSegment) = None"
    using parseQuestions_segments[of ?raw bareSegment "[]" 0 "[]" "[]" 0 "[]" "[]"] s f
      fullSegment_facts
    by simp
  have full: "correctAnswer (parseBlock fullSegment) = Some [cu CHR ''B''] \<and>
      closeAnswer (parseBlock fullSegment) = Some [cu CHR ''A''] \<and>
      text_m (parseBlock fullSegment) = lit ''q'' \<and>
      (\<exists>q. parseReply fullSegment = Inr q \<and> type_m q = Some QuizT \<and>
        options q = options (parseBlock fullSegment) \<and>
        closeAnswer q = closeAnswer (parseBlock fullSegment))"
    using parseQuestions_segments[of "[]" fullSegment "lit '' ''" "cu CHR ''B''"
        "lit '' YAKIN: A''" "lit '' ''" "cu CHR ''A''" "[]"
        "lit '' q A) a B) b CEVAP: B YAKIN: A''"] fullSegment_facts
    by auto
  have "afterFirst (lit ''SORU: A) a'') (lit ''SORU:'') = Some (lit '' A) a'') \<longrightarrow>
      text_m (parseBlock (lit ''SORU: A) a'')) =
        (if trim (beforeFirst (beforeFirst (lit '' A) a'') (lit ''SORU:'')) (lit ''A)'')) = []
         then soruYuklenemedi
         else trim (beforeFirst (beforeFirst (lit '' A) a'') (lit ''SORU:'')) (lit ''A)'')))"
    using parseQuestions_segments[of "[]" "lit ''SORU: A) a''" "[]" 0 "[]" "[]" 0 "[]"
        "lit '' A) a''"]
    by blast
  then have empty: "text_m (parseBlock (lit ''SORU: A) a'')) = soruYuklenemedi"
    using fullSegment_facts(11,12) by simp
  show ?thesis using bare full empty s fullSegment_facts by auto
qed

text \<open>
  C2 as stated fails: with quiz-shape detection applied to each segment, as the
  specification words it, the segment \<^verbatim>\<open>A) a B) b CEVAP: A\<close> (no \<^verbatim>\<open>SORU:\<close>) is a plain
  message and is discarded; \<^verbatim>\<open>startQuiz\<close> keeps it as a quiz item.
\<close>

theorem batch_keeps_segment_without_stem:
  "parseBatch_spec (lit ''A) a B) b CEVAP: A'') = [] \<and>
   map options (parseQuestions (lit ''A) a B) b CEVAP: A'')) =
     [Some [lit ''A) a'', lit ''B) b'']] \<and>
   map text_m (parseQuestions (lit ''A) a B) b CEVAP: A'')) = [soruYuklenemedi]"
  by (simp add: parseBatch_spec_def parseReply_def plainMessage_def parser_eval)

section \<open>Rounding to doubles\<close>

lemma pow2_powi: "pow2 e = 2 powi e"
  by (simp add: pow2_def power_int_def inverse_eq_divide power_one_over)

lemma pow2_pos: "0 < pow2 e"
  by (simp add: pow2_powi)

lemma pow2_plus1: "pow2 (e + 1) = 2 * pow2 e"
  by (simp add: pow2_powi power_int_add_1)

lemma pow2_mono: "a \<le> b \<Longrightarrow> pow2 a \<le> pow2 b"
  by (simp add: pow2_powi power_int_increasing)

lemma binade_bounds: "0 < x \<Longrightarrow> pow2 (binade x) \<le> x \<and> x < pow2 (binade x + 1)"
proof (induction x rule: binade.induct)
  case (1 x)
  show ?case
  proof (cases "2 \<le> x")
    case True
    then have b: "binade x = binade (x / 2) + 1" by (subst binade.simps) simp
    have "pow2 (binade (x / 2)) \<le> x / 2 \<and> x / 2 < pow2 (binade (x / 2) + 1)"
      using 1(1)[OF True] 1(3) by simp
    then show ?thesis
      unfolding b using pow2_plus1[of "binade (x / 2)"] pow2_plus1[of "binade (x / 2) + 1"]
      by simp
  next
    case False
    note f = this
    show ?thesis
    proof (cases "x < 1")
      case True
      then have b: "binade x = binade (2 * x) - 1" using f 1(3) by (subst binade.simps) simp
      have "pow2 (binade (2 * x)) \<le> 2 * x \<and> 2 * x < pow2 (binade (2 * x) + 1)"
        using 1(2)[OF f] 1(3) True by simp
      then show ?thesis
        unfolding b using pow2_plus1[of "binade (2 * x) - 1"] pow2_plus1[of "binade (2 * x)"]
        by simp
    next
      case False
      then have "binade x = 0" using f by (subst binade.simps) simp
      then show ?thesis using f False by (simp add: pow2_def)
    qed
  qed
qed

lemma roundEven_upper: "real_of_int (roundEven m) \<le> m + 1 / 2"
  unfolding roundEven_def by (auto; linarith)

lemma roundEven_nonneg: "0 \<le> m \<Longrightarrow> 0 \<le> roundEven m"
  unfolding roundEven_def by auto

lemma fl_bounds:
  assumes "0 \<le> x" "x < 256"
  shows "0 \<le> fl x \<and> fl x \<le> x + 1 / 2 ^ 46"
proof (cases "x = 0")
  case True
  then show ?thesis by (simp add: fl_def)
next
  case False
  then have p: "0 < x" using assms(1) by simp
  have e: "binade x < 8"
  proof (rule ccontr)
    assume "\<not> binade x < 8"
    then have "pow2 8 \<le> pow2 (binade x)" by (intro pow2_mono) simp
    then have "256 \<le> x" using binade_bounds[OF p] by (simp add: pow2_def)
    then show False using assms(2) by simp
  qed
  have q: "0 < quantum x" by (simp add: quantum_def pow2_pos)
  have "quantum x \<le> pow2 (- 45)"
    unfolding quantum_def using e by (intro pow2_mono) simp
  then have qu: "quantum x \<le> 1 / 2 ^ 45" by (simp add: pow2_def)
  have f: "fl x = of_int (roundEven (x / quantum x)) * quantum x"
    using p by (simp add: fl_def)
  have "0 \<le> roundEven (x / quantum x)" using p q by (intro roundEven_nonneg) simp
  then have lo: "0 \<le> fl x" unfolding f using q by simp
  have "fl x \<le> (x / quantum x + 1 / 2) * quantum x"
    unfolding f using roundEven_upper[of "x / quantum x"] q by (intro mult_right_mono) simp_all
  also have "\<dots> = x + quantum x / 2" using q by (simp add: field_simps)
  also have "\<dots> \<le> x + 1 / 2 ^ 46" using qu by simp
  finally show ?thesis using lo by simp
qed

lemma dadd_ddiv_bound:
  assumes "0 \<le> a" "a \<le> 128" "0 < c" "c \<le> 100" "1 \<le> n"
  shows "0 \<le> dadd a (ddiv c n) \<and> dadd a (ddiv c n) \<le> a + c / n + 1 / 2 ^ 45"
proof -
  have "0 \<le> c / n" "c / n \<le> 100"
  proof -
    show "0 \<le> c / n" using assms(3) assms(5) by simp
    have "100 \<le> 100 * n" using assms(5) by simp
    then have "c \<le> 100 * n" using assms(4) by linarith
    then show "c / n \<le> 100" using assms(5) by (simp add: field_simps)
  qed
  then have t: "0 \<le> ddiv c n" "ddiv c n \<le> c / n + 1 / 2 ^ 46"
    using fl_bounds[of "c / n"] by (simp_all add: ddiv_def)
  then have "0 \<le> a + ddiv c n" "a + ddiv c n < 256"
    using assms(1) assms(2) \<open>c / n \<le> 100\<close> by simp_all
  then have "0 \<le> dadd a (ddiv c n)" "dadd a (ddiv c n) \<le> a + ddiv c n + 1 / 2 ^ 46"
    using fl_bounds[of "a + ddiv c n"] by (simp_all add: dadd_def)
  then show ?thesis using t(2) by simp
qed

lemmas double_eval = dadd_def ddiv_def fl_def quantum_def roundEven_def binade.simps pow2_def

section \<open>Answers and timeouts\<close>

lemmas engine_eval =
  step_def clickAnswer_def answerButtons_def active_def buttonsDisabled_def
  handleQuizAnswer_def timeoutCallback_def startQuiz_begin_def startQuiz_settled_def
  questionCount_def initial_def start_def loaded_def truthy_def orEmpty_def Let_def

lemma handleQuizAnswer_result:
  assumes "\<not> truthy (selectedAnswer r)" "currentQuizIndex r < length (quizQuestions r)"
  shows "\<exists>s1. handleQuizAnswer r answer s =
           Inr (s1, Some \<lparr> delay = 1500, capturedIndex = currentQuizIndex r,
                            capturedLength = length (quizQuestions r) \<rparr>) \<and>
         selectedAnswer s1 = Some answer \<and>
         currentQuizIndex s1 = currentQuizIndex s \<and>
         quizQuestions s1 = quizQuestions s \<and>
         quizFinished s1 = quizFinished s \<and>
         isGenerating s1 = isGenerating s \<and>
         view s1 = view s \<and>
         (quizScore s1 = quizScore s \<or>
          quizScore s1 = dadd (quizScore s) (ddiv 100 (real (length (quizQuestions r)))) \<or>
          quizScore s1 = dadd (quizScore s) (ddiv 50 (real (length (quizQuestions r)))))"
  using assms by (simp add: handleQuizAnswer_def Let_def)

lemma timeoutCallback_fields:
  "view (timeoutCallback t s) = view s"
  "isGenerating (timeoutCallback t s) = isGenerating s"
  "quizQuestions (timeoutCallback t s) = quizQuestions s"
  "quizScore (timeoutCallback t s) = quizScore s"
  "selectedAnswer (timeoutCallback t s) = None"
  by (simp_all add: timeoutCallback_def Let_def)

lemma timeoutCallback_cursor:
  "capturedIndex t + 1 < capturedLength t \<Longrightarrow>
     currentQuizIndex (timeoutCallback t s) = currentQuizIndex s + 1 \<and>
     quizFinished (timeoutCallback t s) = quizFinished s"
  "\<not> capturedIndex t + 1 < capturedLength t \<Longrightarrow>
     currentQuizIndex (timeoutCallback t s) = currentQuizIndex s \<and>
     quizFinished (timeoutCallback t s)"
  by (auto simp add: timeoutCallback_def Let_def)

section \<open>A session that is answered without interference\<close>

lemma roof_bounds: "n < 2 ^ 32 \<Longrightarrow> 100 \<le> roof n \<and> roof n < 100 + 1 / 2 ^ 13"
proof -
  assume "n < 2 ^ 32"
  then have "real n < 2 ^ 32" by (metis of_nat_less_iff of_nat_numeral of_nat_power)
  then have "real n / 2 ^ 45 < 2 ^ 32 / 2 ^ 45" by (simp add: divide_strict_right_mono)
  then show ?thesis by (simp add: roof_def)
qed

lemma sessionInv_score:
  assumes "sessionInv w"
  shows "0 \<le> quizScore (app w) \<and>
         quizScore (app w) \<le> roof (length (quizQuestions (app w)))"
proof -
  let ?n = "length (quizQuestions (app w))"
  let ?k = "currentQuizIndex (app w)"
  have r: "0 \<le> roof ?n" using assms roof_bounds[of ?n] by (simp add: sessionInv_def)
  have b: "quizScore (app w) \<le> roof ?n"
    if "j \<le> ?n" "0 < ?n" "quizScore (app w) * real ?n \<le> roof ?n * real j" for j
  proof -
    have "roof ?n * real j \<le> roof ?n * real ?n"
      using that(1) r by (intro mult_left_mono) simp_all
    then have "quizScore (app w) * real ?n \<le> roof ?n * real ?n" using that(3) by linarith
    then show ?thesis using that(2) by simp
  qed
  have "quizScore (app w) \<le> roof ?n"
  proof -
    consider "idle w" | "waiting w" | "over w" using assms by (auto simp: sessionInv_def)
    then show ?thesis
    proof cases
      case 1
      show ?thesis
      proof (cases "quizQuestions (app w) = []")
        case True
        then have "quizScore (app w) = 0" using 1 by (auto simp: idle_def)
        then show ?thesis using r by simp
      next
        case False
        then have "?k \<le> ?n" "0 < ?n" "quizScore (app w) * real ?n \<le> roof ?n * real ?k"
          using 1 by (auto simp: idle_def)
        then show ?thesis by (rule b)
      qed
    next
      case 2
      then have "?k + 1 \<le> ?n" "0 < ?n"
          "quizScore (app w) * real ?n \<le> roof ?n * real (?k + 1)"
        by (auto simp: waiting_def)
      then show ?thesis by (rule b)
    next
      case 3
      then show ?thesis by (simp add: over_def)
    qed
  qed
  then show ?thesis using assms by (simp add: sessionInv_def)
qed

lemma parseQuestions_optionsNonEmpty:
  "q \<in> set (parseQuestions raw) \<Longrightarrow> options q = Some os \<Longrightarrow> [] \<notin> set os"
  using parseQuestions_member[of q raw] extractOptions_member by auto

lemma sessionInv_loaded:
  assumes "length (parseQuestions (orEmpty t)) < 2 ^ 32"
  shows "sessionInv (loaded b t s)"
proof -
  let ?s = "app (loaded b t s)"
  have q: "quizQuestions ?s = parseQuestions (orEmpty t)"
    by (simp add: loaded_def startQuiz_settled_def)
  have f: "view ?s = Quiz \<or> view ?s = BattleRoyale" "\<not> isGenerating ?s" "quizScore ?s = 0"
    "currentQuizIndex ?s = 0" "selectedAnswer ?s = None" "\<not> quizFinished ?s"
    "timers (loaded b t s) = []"
    by (simp_all add: loaded_def startQuiz_settled_def startQuiz_begin_def)
  have o: "optionsNonEmpty ?s"
    unfolding optionsNonEmpty_def q using parseQuestions_optionsNonEmpty by blast
  have "idle (loaded b t s)"
    unfolding idle_def using f by (cases "quizQuestions ?s") (simp_all add: truthy_def)
  then show ?thesis using f o assms q by (simp add: sessionInv_def)
qed

lemma sessionInv_timer:
  assumes "sessionInv w"
  shows "\<exists>w'. step TimerFires w = Inr w' \<and> sessionInv w'"
proof (cases "timers w")
  case Nil
  then show ?thesis using assms by (simp add: step_def)
next
  case (Cons t ts)
  then have wt: "waiting w" using assms by (auto simp: sessionInv_def idle_def over_def)
  let ?s = "app w"
  let ?n = "length (quizQuestions ?s)"
  let ?k = "currentQuizIndex ?s"
  have t: "t = \<lparr> delay = 1500, capturedIndex = ?k, capturedLength = ?n \<rparr>" "ts = []"
    using wt Cons by (simp_all add: waiting_def)
  let ?s' = "timeoutCallback t ?s"
  let ?w' = "w\<lparr> app := ?s', timers := ts \<rparr>"
  have st: "step TimerFires w = Inr ?w'" using Cons by (simp add: step_def)
  have k: "?k < ?n" "quizScore ?s * real ?n \<le> roof ?n * real (?k + 1)" "\<not> quizFinished ?s"
    using wt by (simp_all add: waiting_def)
  have base: "(view ?s' = Quiz \<or> view ?s' = BattleRoyale) \<and> \<not> isGenerating ?s' \<and>
      length (quizQuestions ?s') < 2 ^ 32 \<and> optionsNonEmpty ?s' \<and> 0 \<le> quizScore ?s'"
    using assms by (simp add: sessionInv_def timeoutCallback_fields optionsNonEmpty_def)
  have "idle ?w' \<or> over ?w'"
  proof (cases "?k + 1 < ?n")
    case True
    then have "currentQuizIndex ?s' = ?k + 1" "quizFinished ?s' = quizFinished ?s"
      using t timeoutCallback_cursor(1)[of t ?s] by simp_all
    then have "idle ?w'"
      using True k t by (simp add: idle_def timeoutCallback_fields truthy_def)
    then show ?thesis ..
  next
    case False
    then have f: "quizFinished ?s'" "currentQuizIndex ?s' = ?k"
      using t timeoutCallback_cursor(2)[of t ?s] by simp_all
    have "?k + 1 = ?n" using False k(1) by simp
    moreover have "quizScore ?s \<le> roof ?n"
      using sessionInv_score[OF assms] by simp
    ultimately have "over ?w'"
      using f t by (simp add: over_def timeoutCallback_fields truthy_def)
    then show ?thesis ..
  qed
  then have "sessionInv ?w'" using base by (auto simp: sessionInv_def)
  then show ?thesis using st by blast
qed

lemma sessionInv_click:
  assumes "sessionInv w"
  shows "\<exists>w'. step (Click c) w = Inr w' \<and> sessionInv w'"
proof -
  let ?s = "app w"
  let ?n = "length (quizQuestions ?s)"
  let ?k = "currentQuizIndex ?s"
  have same: "?thesis" if "clickAnswer c ?s = Inr (?s, None)"
    using that assms by (simp add: step_def)
  consider "idle w" | "waiting w" | "over w" using assms by (auto simp: sessionInv_def)
  then show ?thesis
  proof cases
    case 3
    then have "\<not> active ?s" by (simp add: over_def active_def)
    then have "clickAnswer c ?s = Inr (?s, None)"
      by (simp add: clickAnswer_def answerButtons_def)
    then show ?thesis using same by blast
  next
    case 2
    then have "active ?s" "?k < ?n" "buttonsDisabled ?s"
      using assms by (auto simp: waiting_def active_def sessionInv_def buttonsDisabled_def)
    then have "clickAnswer c ?s = Inr (?s, None)"
      by (simp add: clickAnswer_def answerButtons_def)
    then show ?thesis using same by blast
  next
    case 1
    show ?thesis
    proof (cases "quizQuestions ?s = []")
      case True
      then have "\<not> active ?s" by (simp add: active_def)
      then have "clickAnswer c ?s = Inr (?s, None)"
        by (simp add: clickAnswer_def answerButtons_def)
      then show ?thesis using same by blast
    next
      case False
      note ne = this
      from ne have k: "?k < ?n" "quizScore ?s * real ?n \<le> roof ?n * real ?k"
        "\<not> truthy (selectedAnswer ?s)" "\<not> quizFinished ?s" "timers w = []"
        using 1 by (auto simp: idle_def)
      have a: "active ?s" using assms k False by (simp add: active_def sessionInv_def)
      define bs where
        "bs = (case options (quizQuestions ?s ! ?k) of Some os \<Rightarrow> map charAt0 os | None \<Rightarrow> [])"
      have ab: "answerButtons ?s = Inr bs" using a k by (simp add: answerButtons_def bs_def)
      show ?thesis
      proof (cases "c \<in> set bs")
        case False
        then have "clickAnswer c ?s = Inr (?s, None)" using ab by (simp add: clickAnswer_def)
        then show ?thesis using same by blast
      next
        case True
        then obtain os where os: "options (quizQuestions ?s ! ?k) = Some os"
            "c \<in> set (map charAt0 os)"
          unfolding bs_def by (cases "options (quizQuestions ?s ! ?k)") auto
        then obtain x where x: "options (quizQuestions ?s ! ?k) = Some os" "x \<in> set os"
            "c = charAt0 x"
          by auto
        have "quizQuestions ?s ! ?k \<in> set (quizQuestions ?s)" using k(1) by simp
        then have "x \<noteq> []" using assms x by (auto simp: sessionInv_def optionsNonEmpty_def)
        then have c: "c \<noteq> []" using x(3) by (cases x) (simp_all add: charAt0_def)
        let ?t = "\<lparr> delay = 1500, capturedIndex = ?k, capturedLength = ?n \<rparr>"
        obtain s1 where s1: "handleQuizAnswer ?s c ?s = Inr (s1, Some ?t)"
            "selectedAnswer s1 = Some c" "currentQuizIndex s1 = ?k"
            "quizQuestions s1 = quizQuestions ?s" "quizFinished s1 = quizFinished ?s"
            "isGenerating s1 = isGenerating ?s" "view s1 = view ?s"
            "quizScore s1 = quizScore ?s \<or>
             quizScore s1 = dadd (quizScore ?s) (ddiv 100 (real ?n)) \<or>
             quizScore s1 = dadd (quizScore ?s) (ddiv 50 (real ?n))"
          using handleQuizAnswer_result[OF k(3) k(1), of c ?s] by blast
        let ?w' = "w\<lparr> app := s1, timers := timers w @ [?t] \<rparr>"
        have st: "step (Click c) w = Inr ?w'"
          using ab True k(3) s1(1) by (simp add: step_def clickAnswer_def buttonsDisabled_def)
        have n: "1 \<le> real ?n" using k(1) by (cases "quizQuestions ?s") simp_all
        have n32: "?n < 2 ^ 32" using assms by (simp add: sessionInv_def)
        have sc0: "0 \<le> quizScore ?s" "quizScore ?s \<le> roof ?n"
          using sessionInv_score[OF assms] by simp_all
        have rn: "0 \<le> roof ?n" "roof ?n \<le> 128" using roof_bounds[OF n32] by simp_all
        have up: "0 \<le> quizScore s1 \<and> quizScore s1 \<le> quizScore ?s + 100 / real ?n + 1 / 2 ^ 45"
        proof -
          have d: "0 \<le> dadd (quizScore ?s) (ddiv x (real ?n)) \<and>
               dadd (quizScore ?s) (ddiv x (real ?n)) \<le> quizScore ?s + 100 / real ?n + 1 / 2 ^ 45"
            if "0 < x" "x \<le> 100" for x
          proof -
            have "x / real ?n \<le> 100 / real ?n" using that(2) n by (simp add: divide_right_mono)
            then show ?thesis
              using dadd_ddiv_bound[of "quizScore ?s" x "real ?n"] sc0 rn that n by auto
          qed
          have "0 \<le> 100 / real ?n + 1 / 2 ^ 45" using n by simp
          then show ?thesis using s1(8) d[of 100] d[of 50] sc0(1) by auto
        qed
        have "(quizScore ?s + 100 / real ?n + 1 / 2 ^ 45) * real ?n =
              quizScore ?s * real ?n + roof ?n"
          using ne by (simp add: roof_def field_simps)
        moreover have "quizScore s1 * real ?n
              \<le> (quizScore ?s + 100 / real ?n + 1 / 2 ^ 45) * real ?n"
          using mult_right_mono[of "quizScore s1"
              "quizScore ?s + 100 / real ?n + 1 / 2 ^ 45" "real ?n"] up
          by simp
        ultimately have "quizScore s1 * real ?n \<le> roof ?n * real ?k + roof ?n"
          using k(2) by linarith
        then have sc: "quizScore s1 * real ?n \<le> roof ?n * real (?k + 1)"
          by (simp add: algebra_simps)
        have "waiting ?w'"
          using s1 k c sc by (simp add: waiting_def truthy_def)
        moreover have "optionsNonEmpty s1"
          using assms s1(4) by (simp add: sessionInv_def optionsNonEmpty_def)
        ultimately have "sessionInv ?w'"
          using assms s1 up by (simp add: sessionInv_def)
        then show ?thesis using st by blast
      qed
    qed
  qed
qed

lemma sessionInv_run:
  "sessionInv w \<Longrightarrow> list_all answering es \<Longrightarrow> \<exists>w'. run es w = Inr w' \<and> sessionInv w'"
proof (induction es arbitrary: w)
  case Nil
  then show ?case by simp
next
  case (Cons e es)
  then have "answering e" by simp
  then obtain w1 where w1: "step e w = Inr w1" "sessionInv w1"
    using sessionInv_click[OF Cons.prems(1)] sessionInv_timer[OF Cons.prems(1)]
    by (cases e) auto
  then show ?case using Cons.IH[of w1] Cons.prems(2) by simp
qed

lemma sessionInv_cursor:
  assumes "sessionInv w"
  shows "(quizFinished (app w) \<longrightarrow>
            currentQuizIndex (app w) + 1 = length (quizQuestions (app w))) \<and>
         (\<not> quizFinished (app w) \<longrightarrow>
            quizQuestions (app w) = [] \<or>
            currentQuizIndex (app w) < length (quizQuestions (app w)))"
  using assms by (auto simp: sessionInv_def idle_def waiting_def over_def)

lemma run_quizQuestions:
  "list_all answering es \<Longrightarrow> run es w = Inr w' \<Longrightarrow> sessionInv w \<Longrightarrow>
   quizQuestions (app w') = quizQuestions (app w)"
proof (induction es arbitrary: w)
  case Nil
  then show ?case by simp
next
  case (Cons e es)
  then have a: "answering e" by simp
  obtain w1 where w1: "step e w = Inr w1" "sessionInv w1"
    using a sessionInv_click[OF Cons.prems(3)] sessionInv_timer[OF Cons.prems(3)]
    by (cases e) auto
  have "quizQuestions (app w1) = quizQuestions (app w)"
  proof (cases e)
    case (Click c)
    then show ?thesis
      using w1(1) handleQuizAnswer_result[of "app w" c "app w"]
      by (cases "truthy (selectedAnswer (app w))")
         (auto simp: step_def clickAnswer_def buttonsDisabled_def answerButtons_def
            handleQuizAnswer_def
            split: sum.splits option.splits prod.splits if_splits)
  next
    case TimerFires
    then show ?thesis using w1(1)
      by (auto simp: step_def timeoutCallback_fields split: list.splits)
  qed (use a in auto)
  then show ?case using Cons w1 by simp
qed

section \<open>Claims about the quiz\<close>



lemma loaded_twoQuestions:
  "length (quizQuestions (app (loaded False (Some twoQuestions) initial))) = 2"
  "map options (quizQuestions (app (loaded False (Some twoQuestions) initial))) =
     [Some [lit ''A) a''], Some [lit ''A) a'']]"
  "map correctAnswer (quizQuestions (app (loaded False (Some twoQuestions) initial))) =
     [Some (lit ''A''), Some (lit ''A'')]"
  "currentQuizIndex (app (loaded False (Some twoQuestions) initial)) = 0"
  "selectedAnswer (app (loaded False (Some twoQuestions) initial)) = None"
  "quizScore (app (loaded False (Some twoQuestions) initial)) = 0"
  "active (app (loaded False (Some twoQuestions) initial))"
  "answerButtons (app (loaded False (Some twoQuestions) initial)) = Inr [lit ''A'']"
  unfolding twoQuestions_def by (simp_all add: engine_eval parser_eval)


text \<open>
  C5, as the code has it. The guard of \<^verbatim>\<open>handleQuizAnswer\<close> reads the selection of the
  render that created it: when that is non-empty the call changes nothing and raises
  nothing. A click in a state whose selection is non-empty is such a call, so of two clicks
  in succession the second registers nothing. Where the quiz view shows no answer button
  (the quiz is finished, \<^verbatim>\<open>isGenerating\<close> is set, the item list is empty, or another view is
  shown) there is nothing to click. The handler has no guard of its own for these states,
  and none at all for a batch call that is still pending. Nor does the guard read the
  state at the time of the call: a call on the handler of a render without a selection,
  with its cursor inside its item list, is graded whatever the selection has become since.
\<close>

theorem handleQuizAnswer_guards:
  "(truthy (selectedAnswer r) \<longrightarrow> handleQuizAnswer r answer s = Inr (s, None)) \<and>
   (\<not> truthy (selectedAnswer r) \<and> currentQuizIndex r < length (quizQuestions r) \<longrightarrow>
      (\<exists>s1 t. handleQuizAnswer r answer s = Inr (s1, Some t) \<and>
              selectedAnswer s1 = Some answer)) \<and>
   (\<not> active s \<longrightarrow> answerButtons s = Inr [] \<and> clickAnswer c s = Inr (s, None)) \<and>
   (truthy (selectedAnswer s) \<and> currentQuizIndex s < length (quizQuestions s) \<longrightarrow>
      clickAnswer c s = Inr (s, None)) \<and>
   (\<not> truthy (selectedAnswer s) \<and> currentQuizIndex s < length (quizQuestions s) \<and>
    answerButtons s = Inr bs \<and> c \<in> set bs \<and> c \<noteq> [] \<longrightarrow>
      (\<exists>s1 t. clickAnswer c s = Inr (s1, Some t) \<and> selectedAnswer s1 = Some c \<and>
              clickAnswer c' s1 = Inr (s1, None)))"
proof -
  have 1: "handleQuizAnswer r answer s = Inr (s, None)" if "truthy (selectedAnswer r)"
    using that by (simp add: handleQuizAnswer_def)
  have 2: "answerButtons s = Inr [] \<and> clickAnswer c s = Inr (s, None)" if "\<not> active s"
    using that by (simp add: answerButtons_def clickAnswer_def)
  have 3: "clickAnswer c s = Inr (s, None)"
    if "truthy (selectedAnswer s) \<and> currentQuizIndex s < length (quizQuestions s)"
    using that by (simp add: clickAnswer_def answerButtons_def buttonsDisabled_def)
  have 4: "\<exists>s1 t. clickAnswer c s = Inr (s1, Some t) \<and> selectedAnswer s1 = Some c \<and>
              clickAnswer c' s1 = Inr (s1, None)"
    if a: "\<not> truthy (selectedAnswer s) \<and> currentQuizIndex s < length (quizQuestions s) \<and>
      answerButtons s = Inr bs \<and> c \<in> set bs \<and> c \<noteq> []"
  proof -
    obtain s1 t where s1: "handleQuizAnswer s c s = Inr (s1, Some t)"
        "selectedAnswer s1 = Some c" "currentQuizIndex s1 = currentQuizIndex s"
        "quizQuestions s1 = quizQuestions s"
      using a handleQuizAnswer_result[of s c s] by blast
    have c1: "clickAnswer c s = Inr (s1, Some t)"
      using a s1(1) by (simp add: clickAnswer_def buttonsDisabled_def)
    have "truthy (selectedAnswer s1)" using s1(2) a by (simp add: truthy_def)
    then have "clickAnswer c' s1 = Inr (s1, None)"
      using a s1(3) s1(4) by (simp add: clickAnswer_def answerButtons_def buttonsDisabled_def)
    then show ?thesis using c1 s1(2) by blast
  qed
  have 5: "\<exists>s1 t. handleQuizAnswer r answer s = Inr (s1, Some t) \<and>
              selectedAnswer s1 = Some answer"
    if "\<not> truthy (selectedAnswer r) \<and> currentQuizIndex r < length (quizQuestions r)"
    using that handleQuizAnswer_result[of r answer s] by blast
  show ?thesis using 1 2 3 4 5 by blast
qed

theorem handleQuizAnswer_guards_witness:
  "\<not> truthy (selectedAnswer (app (loaded False (Some twoQuestions) initial))) \<and>
   currentQuizIndex (app (loaded False (Some twoQuestions) initial)) <
     length (quizQuestions (app (loaded False (Some twoQuestions) initial))) \<and>
   answerButtons (app (loaded False (Some twoQuestions) initial)) = Inr [lit ''A''] \<and>
   lit ''A'' \<in> set [lit ''A''] \<and> lit ''A'' \<noteq> [] \<and>
   (\<exists>s1 t. clickAnswer (lit ''A'') (app (loaded False (Some twoQuestions) initial)) =
              Inr (s1, Some t) \<and>
            truthy (selectedAnswer s1) \<and>
            currentQuizIndex s1 < length (quizQuestions s1) \<and>
            clickAnswer (lit ''A'') s1 = Inr (s1, None) \<and>
            handleQuizAnswer s1 (lit ''A'') s1 = Inr (s1, None) \<and>
            (\<exists>s2 t2. handleQuizAnswer (app (loaded False (Some twoQuestions) initial))
                        (lit ''A'') s1 = Inr (s2, Some t2) \<and>
                      selectedAnswer s2 = Some (lit ''A''))) \<and>
   \<not> active initial \<and>
   clickAnswer (lit ''A'') initial = Inr (initial, None)"
proof -
  let ?s = "app (loaded False (Some twoQuestions) initial)"
  have h: "\<not> truthy (selectedAnswer ?s)" "currentQuizIndex ?s < length (quizQuestions ?s)"
    "answerButtons ?s = Inr [lit ''A'']" "lit ''A'' \<in> set [lit ''A'']" "lit ''A'' \<noteq> []"
    by (simp_all add: loaded_twoQuestions truthy_def lit_def)
  have n: "\<not> active initial" by (simp add: active_def initial_def)
  from handleQuizAnswer_guards[of ?s "[]" ?s "lit ''A''" "[lit ''A'']" "lit ''A''"] h
  obtain s1 t where s1: "clickAnswer (lit ''A'') ?s = Inr (s1, Some t)"
      "selectedAnswer s1 = Some (lit ''A'')" "clickAnswer (lit ''A'') s1 = Inr (s1, None)"
    by blast
  have t1: "truthy (selectedAnswer s1)" using s1(2) by (simp add: truthy_def lit_def)
  have "handleQuizAnswer ?s (lit ''A'') ?s = Inr (s1, Some t)"
    using s1(1) h by (simp add: clickAnswer_def buttonsDisabled_def)
  then have i: "currentQuizIndex s1 < length (quizQuestions s1)"
    using h handleQuizAnswer_result[of ?s "lit ''A''" ?s] by auto
  have g: "handleQuizAnswer s1 (lit ''A'') s1 = Inr (s1, None)"
    using handleQuizAnswer_guards[of s1 "lit ''A''" s1 "[]" "[]" "[]"] t1 by blast
  have e: "\<exists>s2 t2. handleQuizAnswer ?s (lit ''A'') s1 = Inr (s2, Some t2) \<and>
                      selectedAnswer s2 = Some (lit ''A'')"
    using handleQuizAnswer_guards[of ?s "lit ''A''" s1 "[]" "[]" "[]"] h by blast
  have "clickAnswer (lit ''A'') initial = Inr (initial, None)"
    using handleQuizAnswer_guards[of initial "[]" initial "lit ''A''" "[]" "[]"] n by blast
  then show ?thesis using h n s1 t1 i g e by blast
qed

text \<open>
  C5 as stated fails: the quiz is started twice and the answer to the first call arrives.
  The call of the running session is still pending, so the session is loading and not
  active, yet the answer buttons are shown and a click is graded: the score goes from 0 to
  50 and the selection is set.
\<close>

theorem click_graded_while_loading:
  "map_sum id pending (run loadingRun start) = Inr [1] \<and>
   map_sum id (quizScore \<circ> app) (run loadingRun start) = Inr 0 \<and>
   map_sum id (answerButtons \<circ> app) (run loadingRun start) = Inr (Inr [lit ''A'']) \<and>
   map_sum id (quizScore \<circ> app) (run (loadingRun @ [Click (lit ''A'')]) start) = Inr 50 \<and>
   map_sum id (selectedAnswer \<circ> app) (run (loadingRun @ [Click (lit ''A'')]) start) =
     Inr (Some (lit ''A'')) \<and>
   map_sum id pending (run (loadingRun @ [Click (lit ''A'')]) start) = Inr [1]"
  unfolding loadingRun_def twoQuestions_def
  by (simp add: engine_eval parser_eval double_eval)

text \<open>
  C6, as the code has it. The cursor is 0 after \<^verbatim>\<open>startQuiz\<close> and the arrival of the batch
  does not move it. An answer on a render whose cursor is inside its item list leaves the
  cursor where it is and sets a timeout of 1500 ms, which keeps the cursor and the number
  of items of that render. When a timeout fires, in whatever state, the selection is
  cleared and, if it was set on an item other than the last one, the cursor goes up by
  exactly one; if it was set on the last item the cursor stays and the quiz is finished. No
  timeout ever lowers the cursor. In a session that is answered without interference (its
  batch has arrived, no other call or timeout is pending, only clicks and timeouts follow)
  the cursor stays inside the item list, and when the quiz is finished it is on the last
  item, one below the number of items.
\<close>

theorem cursor_advances:
  "currentQuizIndex (fst (startQuiz_begin b s0)) = 0 \<and>
   currentQuizIndex (startQuiz_settled r s0) = currentQuizIndex s0 \<and>
   currentQuizIndex s0 \<le> currentQuizIndex (timeoutCallback t0 s0) \<and>
   selectedAnswer (timeoutCallback t0 s0) = None \<and>
   (capturedIndex t0 + 1 < capturedLength t0 \<longrightarrow>
      currentQuizIndex (timeoutCallback t0 s0) = currentQuizIndex s0 + 1 \<and>
      quizFinished (timeoutCallback t0 s0) = quizFinished s0) \<and>
   (\<not> capturedIndex t0 + 1 < capturedLength t0 \<longrightarrow>
      currentQuizIndex (timeoutCallback t0 s0) = currentQuizIndex s0 \<and>
      quizFinished (timeoutCallback t0 s0)) \<and>
   (\<not> truthy (selectedAnswer s) \<and> currentQuizIndex s < length (quizQuestions s) \<longrightarrow>
      (\<exists>s1 t. handleQuizAnswer s answer s = Inr (s1, Some t) \<and>
         delay t = 1500 \<and>
         capturedIndex t = currentQuizIndex s \<and>
         capturedLength t = length (quizQuestions s) \<and>
         currentQuizIndex s1 = currentQuizIndex s \<and>
         selectedAnswer (timeoutCallback t s1) = None \<and>
         (currentQuizIndex s + 1 < length (quizQuestions s) \<longrightarrow>
            currentQuizIndex (timeoutCallback t s1) = currentQuizIndex s + 1 \<and>
            quizFinished (timeoutCallback t s1) = quizFinished s) \<and>
         (currentQuizIndex s + 1 = length (quizQuestions s) \<longrightarrow>
            currentQuizIndex (timeoutCallback t s1) = currentQuizIndex s \<and>
            quizFinished (timeoutCallback t s1)))) \<and>
   (list_all answering es \<and> length (parseQuestions (orEmpty txt)) < 2 ^ 32 \<longrightarrow>
      (\<exists>w. run es (loaded b txt s0) = Inr w \<and>
           quizQuestions (app w) = parseQuestions (orEmpty txt) \<and>
           (quizFinished (app w) \<longrightarrow>
              currentQuizIndex (app w) + 1 = length (quizQuestions (app w))) \<and>
           (\<not> quizFinished (app w) \<longrightarrow>
              quizQuestions (app w) = [] \<or>
              currentQuizIndex (app w) < length (quizQuestions (app w)))))"
proof -
  have 1: "currentQuizIndex (fst (startQuiz_begin b s0)) = 0"
    by (simp add: startQuiz_begin_def)
  have 2: "currentQuizIndex (startQuiz_settled r s0) = currentQuizIndex s0"
    by (cases r) (simp_all add: startQuiz_settled_def)
  have 3: "currentQuizIndex s0 \<le> currentQuizIndex (timeoutCallback t0 s0)"
    "selectedAnswer (timeoutCallback t0 s0) = None"
    by (simp_all add: timeoutCallback_def Let_def)
  have 4: "\<exists>s1 t. handleQuizAnswer s answer s = Inr (s1, Some t) \<and>
         delay t = 1500 \<and>
         capturedIndex t = currentQuizIndex s \<and>
         capturedLength t = length (quizQuestions s) \<and>
         currentQuizIndex s1 = currentQuizIndex s \<and>
         selectedAnswer (timeoutCallback t s1) = None \<and>
         (currentQuizIndex s + 1 < length (quizQuestions s) \<longrightarrow>
            currentQuizIndex (timeoutCallback t s1) = currentQuizIndex s + 1 \<and>
            quizFinished (timeoutCallback t s1) = quizFinished s) \<and>
         (currentQuizIndex s + 1 = length (quizQuestions s) \<longrightarrow>
            currentQuizIndex (timeoutCallback t s1) = currentQuizIndex s \<and>
            quizFinished (timeoutCallback t s1))"
    if a: "\<not> truthy (selectedAnswer s) \<and> currentQuizIndex s < length (quizQuestions s)"
  proof -
    let ?t = "\<lparr> delay = 1500, capturedIndex = currentQuizIndex s,
                 capturedLength = length (quizQuestions s) \<rparr>"
    obtain s1 where s1: "handleQuizAnswer s answer s = Inr (s1, Some ?t)"
        "currentQuizIndex s1 = currentQuizIndex s" "quizFinished s1 = quizFinished s"
      using a handleQuizAnswer_result[of s answer s] by blast
    have "selectedAnswer (timeoutCallback ?t s1) = None"
      by (simp add: timeoutCallback_fields)
    moreover have "currentQuizIndex s + 1 < length (quizQuestions s) \<longrightarrow>
            currentQuizIndex (timeoutCallback ?t s1) = currentQuizIndex s + 1 \<and>
            quizFinished (timeoutCallback ?t s1) = quizFinished s"
      using s1 timeoutCallback_cursor(1)[of ?t s1] by simp
    moreover have "currentQuizIndex s + 1 = length (quizQuestions s) \<longrightarrow>
            currentQuizIndex (timeoutCallback ?t s1) = currentQuizIndex s \<and>
            quizFinished (timeoutCallback ?t s1)"
      using s1 timeoutCallback_cursor(2)[of ?t s1] by simp
    ultimately show ?thesis using s1 by (intro exI[of _ s1] exI[of _ ?t]) simp
  qed
  have 5: "\<exists>w. run es (loaded b txt s0) = Inr w \<and>
           quizQuestions (app w) = parseQuestions (orEmpty txt) \<and>
           (quizFinished (app w) \<longrightarrow>
              currentQuizIndex (app w) + 1 = length (quizQuestions (app w))) \<and>
           (\<not> quizFinished (app w) \<longrightarrow>
              quizQuestions (app w) = [] \<or>
              currentQuizIndex (app w) < length (quizQuestions (app w)))"
    if a: "list_all answering es \<and> length (parseQuestions (orEmpty txt)) < 2 ^ 32"
  proof -
    have i: "sessionInv (loaded b txt s0)" using a sessionInv_loaded by blast
    then obtain w where w: "run es (loaded b txt s0) = Inr w" "sessionInv w"
      using a sessionInv_run by blast
    have "quizQuestions (app w) = quizQuestions (app (loaded b txt s0))"
      using run_quizQuestions[of es "loaded b txt s0" w] a w(1) i by blast
    then have "quizQuestions (app w) = parseQuestions (orEmpty txt)"
      by (simp add: loaded_def startQuiz_settled_def)
    then show ?thesis using w sessionInv_cursor[OF w(2)] by blast
  qed
  show ?thesis
    using 1 2 3 4 5 timeoutCallback_cursor(1)[of t0 s0] timeoutCallback_cursor(2)[of t0 s0]
    by blast
qed

lemma twoAnswers_run:
  "map_sum id (quizFinished \<circ> app) (run twoAnswers (loaded False (Some twoQuestions) initial)) =
     Inr True"
  "map_sum id (currentQuizIndex \<circ> app)
     (run twoAnswers (loaded False (Some twoQuestions) initial)) = Inr 1"
  "map_sum id (quizScore \<circ> app) (run twoAnswers (loaded False (Some twoQuestions) initial)) =
     Inr 100"
  unfolding twoAnswers_def twoQuestions_def
  by (simp_all add: engine_eval parser_eval double_eval)

theorem cursor_advances_witness:
  "\<not> truthy (selectedAnswer (app (loaded False (Some twoQuestions) initial))) \<and>
   currentQuizIndex (app (loaded False (Some twoQuestions) initial)) = 0 \<and>
   length (quizQuestions (app (loaded False (Some twoQuestions) initial))) = 2 \<and>
   (\<exists>s1 t. handleQuizAnswer (app (loaded False (Some twoQuestions) initial)) (lit ''A'')
              (app (loaded False (Some twoQuestions) initial)) = Inr (s1, Some t) \<and>
            delay t = 1500 \<and>
            currentQuizIndex s1 = 0 \<and>
            currentQuizIndex (timeoutCallback t s1) = 1 \<and>
            \<not> quizFinished (timeoutCallback t s1)) \<and>
   currentQuizIndex
     (timeoutCallback \<lparr> delay = 1500, capturedIndex = 1, capturedLength = 2 \<rparr>
        (initial\<lparr> currentQuizIndex := 1 \<rparr>)) = 1 \<and>
   quizFinished
     (timeoutCallback \<lparr> delay = 1500, capturedIndex = 1, capturedLength = 2 \<rparr>
        (initial\<lparr> currentQuizIndex := 1 \<rparr>)) \<and>
   list_all answering twoAnswers \<and>
   length (parseQuestions (orEmpty (Some twoQuestions))) < 2 ^ 32 \<and>
   (\<exists>w. run twoAnswers (loaded False (Some twoQuestions) initial) = Inr w \<and>
        quizFinished (app w) \<and> currentQuizIndex (app w) = 1 \<and>
        length (quizQuestions (app w)) = 2)"
proof -
  let ?s = "app (loaded False (Some twoQuestions) initial)"
  let ?t = "\<lparr> delay = 1500, capturedIndex = 1, capturedLength = 2 \<rparr>"
  let ?u = "initial\<lparr> currentQuizIndex := 1 \<rparr>"
  have h: "\<not> truthy (selectedAnswer ?s)" "currentQuizIndex ?s = 0"
    "length (quizQuestions ?s) = 2" "\<not> quizFinished ?s"
    by (simp_all add: loaded_twoQuestions truthy_def) (simp add: engine_eval)
  have a: "list_all answering twoAnswers"
    "length (parseQuestions (orEmpty (Some twoQuestions))) < 2 ^ 32"
    using loaded_twoQuestions(1) by (simp_all add: twoAnswers_def loaded_def
        startQuiz_settled_def)
  have first: "\<exists>s1 t. handleQuizAnswer ?s (lit ''A'') ?s = Inr (s1, Some t) \<and>
            delay t = 1500 \<and> currentQuizIndex s1 = 0 \<and>
            currentQuizIndex (timeoutCallback t s1) = 1 \<and>
            \<not> quizFinished (timeoutCallback t s1)"
    using cursor_advances[of False initial Rejected ?t ?s "lit ''A''" "[]" None] h by auto
  have last: "currentQuizIndex (timeoutCallback ?t ?u) = 1 \<and> quizFinished (timeoutCallback ?t ?u)"
    using cursor_advances[of False ?u Rejected ?t ?s "lit ''A''" "[]" None] by simp
  obtain w where w: "run twoAnswers (loaded False (Some twoQuestions) initial) = Inr w"
      "quizFinished (app w) \<longrightarrow> currentQuizIndex (app w) + 1 = length (quizQuestions (app w))"
      "quizQuestions (app w) = parseQuestions (orEmpty (Some twoQuestions))"
    using cursor_advances[of False initial Rejected ?t ?s "lit ''A''" twoAnswers
        "Some twoQuestions"] a by blast
  have f: "quizFinished (app w)" using w(1) twoAnswers_run(1) by simp
  have l: "length (quizQuestions (app w)) = 2"
    using w(3) loaded_twoQuestions(1) by (simp add: loaded_def startQuiz_settled_def)
  then have "currentQuizIndex (app w) = 1" using w(2) f by simp
  then show ?thesis using h a first last w(1) f l by blast
qed

text \<open>
  C6 as stated fails: when the one-question quiz is finished the cursor is 0, not 1; the
  resolved answer has not moved it.
\<close>

theorem finished_below_item_count:
  "map_sum id (quizFinished \<circ> app) (run oneQuestionRun start) = Inr True \<and>
   map_sum id (currentQuizIndex \<circ> app) (run oneQuestionRun start) = Inr 0 \<and>
   map_sum id (length \<circ> quizQuestions \<circ> app) (run oneQuestionRun start) = Inr 1"
  unfolding oneQuestionRun_def oneQuestion_def
  by (simp add: engine_eval parser_eval double_eval)

text \<open>
  C3, as the code has it. \<^verbatim>\<open>startQuiz\<close> sets the score to 0, the cursor to 0, the outcomes
  to empty, the selection to none, and asks for 5 questions, or 100 for the marathon. When
  the answer to a pending batch call arrives the item list becomes the parse of that answer
  and nothing else, whichever call it answers; answering does not change the item list. So
  the items are those of the answer that arrived last, never a merge.
\<close>

theorem startQuiz_resets_and_replaces:
  "quizScore (fst (startQuiz_begin b s)) = 0 \<and>
   currentQuizIndex (fst (startQuiz_begin b s)) = 0 \<and>
   answerStatus (fst (startQuiz_begin b s)) = Map.empty \<and>
   selectedAnswer (fst (startQuiz_begin b s)) = None \<and>
   \<not> quizFinished (fst (startQuiz_begin b s)) \<and>
   snd (startQuiz_begin b s) = (if b then 100 else 5) \<and>
   (k \<in> set (pending w) \<longrightarrow>
      (\<exists>w'. step (BatchSettles k (Fulfilled t)) w = Inr w' \<and>
            quizQuestions (app w') = parseQuestions (orEmpty t) \<and>
            k \<notin> set (pending w'))) \<and>
   (answering e \<and> step e w = Inr w' \<longrightarrow> quizQuestions (app w') = quizQuestions (app w))"
proof -
  have 1: "quizScore (fst (startQuiz_begin b s)) = 0 \<and>
   currentQuizIndex (fst (startQuiz_begin b s)) = 0 \<and>
   answerStatus (fst (startQuiz_begin b s)) = Map.empty \<and>
   selectedAnswer (fst (startQuiz_begin b s)) = None \<and>
   \<not> quizFinished (fst (startQuiz_begin b s)) \<and>
   snd (startQuiz_begin b s) = (if b then 100 else 5)"
    by (simp add: startQuiz_begin_def questionCount_def)
  have 2: "\<exists>w'. step (BatchSettles k (Fulfilled t)) w = Inr w' \<and>
            quizQuestions (app w') = parseQuestions (orEmpty t) \<and>
            k \<notin> set (pending w')" if "k \<in> set (pending w)"
    using that by (simp add: step_def startQuiz_settled_def)
  have 3: "quizQuestions (app w') = quizQuestions (app w)"
    if a: "answering e \<and> step e w = Inr w'"
  proof (cases e)
    case (Click c)
    have "quizQuestions s1 = quizQuestions (app w)"
      if "clickAnswer c (app w) = Inr (s1, t1)" for s1 t1
    proof (cases "truthy (selectedAnswer (app w))")
      case True
      then show ?thesis using that
        by (auto simp: clickAnswer_def buttonsDisabled_def handleQuizAnswer_def
            split: sum.splits if_splits)
    next
      case False
      then show ?thesis using that handleQuizAnswer_result[of "app w" c "app w"]
        by (auto simp: clickAnswer_def buttonsDisabled_def answerButtons_def
            split: sum.splits if_splits)
    qed
    then show ?thesis using a Click
      by (auto simp: step_def split: sum.splits option.splits prod.splits)
  next
    case TimerFires
    then show ?thesis using a
      by (auto simp: step_def timeoutCallback_def Let_def split: list.splits)
  qed (use a in auto)
  show ?thesis using 1 2 3 by blast
qed

theorem startQuiz_resets_and_replaces_witness:
  "1 \<in> set (pending \<lparr> app = initial, issued = 2, pending = [0, 1], timers = [] \<rparr>) \<and>
   (\<exists>w'. step (BatchSettles 1 (Fulfilled (Some twoQuestions)))
            \<lparr> app = initial, issued = 2, pending = [0, 1], timers = [] \<rparr> = Inr w' \<and>
          quizQuestions (app w') = parseQuestions twoQuestions \<and>
          1 \<notin> set (pending w')) \<and>
   answering TimerFires \<and>
   step TimerFires \<lparr> app = initial, issued = 2, pending = [0, 1], timers = [] \<rparr> =
     Inr \<lparr> app = initial, issued = 2, pending = [0, 1], timers = [] \<rparr>"
proof -
  let ?w = "\<lparr> app = initial, issued = 2, pending = [0, 1], timers = [] \<rparr>"
  have h: "1 \<in> set (pending ?w)" by simp
  have t: "answering TimerFires" "step TimerFires ?w = Inr ?w"
    by (simp_all add: step_def)
  show ?thesis
    using startQuiz_resets_and_replaces[of False initial 1 ?w "Some twoQuestions"
        TimerFires ?w] h t
    by (simp add: orEmpty_def)
qed

text \<open>
  C3 as stated fails: the quiz is started twice, the answer to the newest call (call 1,
  three questions) arrives first and the answer to the older call (call 0, two questions)
  after it; the items are then those of the older call.
\<close>

theorem items_of_older_request:
  "map_sum id (map text_m \<circ> quizQuestions \<circ> app) (run staleRun start) =
     Inr [lit ''p1'', lit ''p2''] \<and>
   map text_m (parseQuestions threeQuestions) = [lit ''q1'', lit ''q2'', lit ''q3'']"
  unfolding staleRun_def twoQuestions_def threeQuestions_def
  by (simp add: engine_eval parser_eval)

section \<open>The score of a session\<close>

lemma mathRound_bounds:
  "0 \<le> x \<Longrightarrow> x < 100 + 1 / 2 \<Longrightarrow> 0 \<le> mathRound x \<and> mathRound x \<le> 100"
  unfolding mathRound_def by (simp add: floor_le_iff)

text \<open>
  C9, as the code has it. Take a session whose batch call has been answered, with no other
  call or timeout pending, and let only answering events follow (clicks on answer buttons
  and timeouts); its item list is an array, shorter than \<open>2 ^ 32\<close>. The run raises no
  error. The score, a sum of rounded quotients rounded at each addition, is at no point
  below 0 and at no point above 100 by more than the number of items times \<open>2 ^ - 45\<close>,
  which is less than \<open>2 ^ - 13\<close>; it can be above 100. Once the quiz is finished the result
  screen shows \<^verbatim>\<open>Math.round\<close> of the score out of 100, and the number shown is between 0
  and 100.
\<close>

theorem score_at_most_100:
  assumes "list_all answering es" "length (parseQuestions (orEmpty t)) < 2 ^ 32"
  shows "\<exists>w. run es (loaded b t s) = Inr w \<and>
           0 \<le> quizScore (app w) \<and>
           quizScore (app w) \<le> 100 + real (length (quizQuestions (app w))) / 2 ^ 45 \<and>
           quizScore (app w) < 100 + 1 / 2 ^ 13 \<and>
           (quizFinished (app w) \<longrightarrow>
              scoreShown (app w) = Some (mathRound (quizScore (app w)), 100) \<and>
              0 \<le> mathRound (quizScore (app w)) \<and> mathRound (quizScore (app w)) \<le> 100)"
proof -
  obtain w where w: "run es (loaded b t s) = Inr w" "sessionInv w"
    using sessionInv_run[OF sessionInv_loaded[OF assms(2)] assms(1)] by blast
  let ?n = "length (quizQuestions (app w))"
  have n: "?n < 2 ^ 32" using w(2) by (simp add: sessionInv_def)
  have sc: "0 \<le> quizScore (app w)" "quizScore (app w) \<le> roof ?n"
    using sessionInv_score[OF w(2)] by simp_all
  have r: "roof ?n < 100 + 1 / 2 ^ 13" using roof_bounds[OF n] by simp
  have lt: "quizScore (app w) < 100 + 1 / 2 ^ 13" using sc(2) r by linarith
  then have "quizScore (app w) < 100 + 1 / 2" by simp
  then have m: "0 \<le> mathRound (quizScore (app w)) \<and> mathRound (quizScore (app w)) \<le> 100"
    using mathRound_bounds sc(1) by blast
  have "scoreShown (app w) = Some (mathRound (quizScore (app w)), 100)" if "quizFinished (app w)"
    using that w(2) by (auto simp: scoreShown_def sessionInv_def)
  then show ?thesis using w(1) sc lt m unfolding roof_def by blast
qed

lemma sixAnswers_run:
  "map_sum id (quizScore \<circ> app) (run sixAnswers (loaded False (Some sixQuestions) initial)) =
     Inr (7036874417766401 / 70368744177664)"
  "map_sum id (quizFinished \<circ> app) (run sixAnswers (loaded False (Some sixQuestions) initial)) =
     Inr True"
  "length (parseQuestions sixQuestions) = 6"
  unfolding sixAnswers_def sixQuestions_def
  by (simp_all add: engine_eval parser_eval double_eval)

theorem score_at_most_100_witness:
  "list_all answering sixAnswers \<and>
   length (parseQuestions (orEmpty (Some sixQuestions))) < 2 ^ 32 \<and>
   (\<exists>w. run sixAnswers (loaded False (Some sixQuestions) initial) = Inr w \<and>
        quizScore (app w) = 7036874417766401 / 70368744177664 \<and>
        100 < quizScore (app w) \<and>
        quizScore (app w) \<le> 100 + real (length (quizQuestions (app w))) / 2 ^ 45 \<and>
        quizFinished (app w) \<and>
        scoreShown (app w) = Some (100, 100))"
proof -
  let ?l = "loaded False (Some sixQuestions) initial"
  have a: "list_all answering sixAnswers"
    "length (parseQuestions (orEmpty (Some sixQuestions))) < 2 ^ 32"
    by (simp_all add: sixAnswers_def sixAnswers_run(3) orEmpty_def)
  from score_at_most_100[OF a, of False initial]
  obtain w where w: "run sixAnswers ?l = Inr w"
      "quizScore (app w) \<le> 100 + real (length (quizQuestions (app w))) / 2 ^ 45"
      "quizFinished (app w) \<longrightarrow>
         scoreShown (app w) = Some (mathRound (quizScore (app w)), 100)"
    by blast
  have f: "quizScore (app w) = 7036874417766401 / 70368744177664" "quizFinished (app w)"
    using sixAnswers_run w(1) by simp_all
  have g: "100 < quizScore (app w)" unfolding f(1) by simp
  have "mathRound (7036874417766401 / 70368744177664) = 100" by (simp add: mathRound_def)
  then have "scoreShown (app w) = Some (100, 100)" using w(3) f by simp
  then show ?thesis using a w(1) w(2) f g by blast
qed

text \<open>
  C9 as stated fails, in two ways. In the run where the quiz is started twice before either
  call has settled, one of two questions is answered, then the three-question batch
  replaces the items and two more questions are answered: the score is above 116 and the
  result screen shows 117 out of 100. And in a single quiz of six questions, all answered
  correctly, the six rounded additions of the rounded quotient of 100 by 6 give
  \<open>100 + 2 ^ - 46\<close>, above 100.
\<close>

theorem score_above_100:
  "map_sum id (quizScore \<circ> app) (run overlappingRun start) =
     Inr (2052421705181867 / 17592186044416) \<and>
   (100 :: real) < 2052421705181867 / 17592186044416 \<and>
   map_sum id (scoreShown \<circ> app) (run overlappingRun start) = Inr (Some (117, 100)) \<and>
   map_sum id (quizScore \<circ> app) (run sixCorrectRun start) =
     Inr (7036874417766401 / 70368744177664) \<and>
   (7036874417766401 / 70368744177664 :: real) = 100 + 1 / 2 ^ 46 \<and>
   map_sum id (length \<circ> quizQuestions \<circ> app) (run sixCorrectRun start) = Inr 6"
  unfolding overlappingRun_def sixCorrectRun_def sixAnswers_def twoQuestions_def
    threeQuestions_def sixQuestions_def
  by (simp add: engine_eval parser_eval double_eval scoreShown_def mathRound_def)
section \<open>Claims about failing calls\<close>

text \<open>
  C8, evaluated on the code. When the services fail a \<^verbatim>\<open>handleStudyMessage\<close> (the user's
  message was not blank and a book is selected), the handler returns, the error goes no
  further and loading ends, but the chat holds the user's message and nothing after it: no
  fallback reply is appended, and \<^verbatim>\<open>aiResponse\<close> is untouched. \<^verbatim>\<open>handleAiGenerate\<close> does
  set its fixed fallback text when its call is rejected.
\<close>

theorem study_failure_appends_no_reply:
  assumes "selectedBook s \<noteq> None" "trim txt \<noteq> [] \<or> truthy img" "upstreamFails txt up"
  shows "(\<exists>s'. handleStudyMessage txt img apiKey up s = Some s' \<and>
            chatMessages s' = chatMessages s @ [userMessage txt img] \<and>
            aiResponse s' = aiResponse s \<and> \<not> isGenerating s') \<and>
         (trim (aiInput s0) \<noteq> [] \<longrightarrow>
            aiResponse (handleAiGenerate Rejected s0) = uzgunum \<and>
            \<not> isGenerating (handleAiGenerate Rejected s0))"
proof -
  have 1: "\<exists>s'. handleStudyMessage txt img apiKey up s = Some s' \<and>
            chatMessages s' = chatMessages s @ [userMessage txt img] \<and>
            aiResponse s' = aiResponse s \<and> \<not> isGenerating s'"
  proof (cases "startsWith txt (lit ''/resim '')")
    case True
    then show ?thesis
      using assms
      by (auto simp: handleStudyMessage_def upstreamFails_def Let_def
          split: settled.splits option.splits)
  next
    case False
    note nr = this
    show ?thesis
    proof (cases "startsWith txt (lit ''/video '')")
      case True
      then show ?thesis
        using assms nr
        by (auto simp: handleStudyMessage_def upstreamFails_def Let_def
            split: settled.splits option.splits)
    next
      case False
      then show ?thesis
        using assms nr
        by (auto simp: handleStudyMessage_def upstreamFails_def Let_def)
    qed
  qed
  have 2: "aiResponse (handleAiGenerate Rejected s0) = uzgunum \<and>
            \<not> isGenerating (handleAiGenerate Rejected s0)" if "trim (aiInput s0) \<noteq> []"
    using that by (simp add: handleAiGenerate_def)
  show ?thesis using 1 2 by blast
qed

theorem study_failure_appends_no_reply_witness:
  "selectedBook chatOnFen \<noteq> None \<and>
   trim (lit ''/resim hucre'') \<noteq> [] \<and>
   upstreamFails (lit ''/resim hucre'') noImage \<and>
   (\<exists>s'. handleStudyMessage (lit ''/resim hucre'') None (lit ''key'') noImage chatOnFen =
            Some s' \<and>
          chatMessages s' = [userMessage (lit ''/resim hucre'') None] \<and>
          aiResponse s' = [] \<and> \<not> isGenerating s') \<and>
   trim (aiInput (initial\<lparr> aiInput := lit ''dna'' \<rparr>)) \<noteq> [] \<and>
   aiResponse (handleAiGenerate Rejected (initial\<lparr> aiInput := lit ''dna'' \<rparr>)) = uzgunum"
proof -
  have h: "selectedBook chatOnFen \<noteq> None" "trim (lit ''/resim hucre'') \<noteq> [] \<or> truthy None"
    "upstreamFails (lit ''/resim hucre'') noImage"
    "trim (aiInput (initial\<lparr> aiInput := lit ''dna'' \<rparr>)) \<noteq> []"
    by (simp_all add: chatOnFen_def initial_def upstreamFails_def noImage_def trim_def lit_def
        cu_def isWhiteSpace_def startsWith_def)
  have t: "trim (lit ''/resim hucre'') \<noteq> []"
    by (simp add: trim_def lit_def cu_def isWhiteSpace_def)
  have c: "chatMessages chatOnFen = []" "aiResponse chatOnFen = []"
    by (simp_all add: chatOnFen_def initial_def)
  show ?thesis
    using study_failure_appends_no_reply[OF h(1) h(2) h(3), of "lit ''key''"
        "initial\<lparr> aiInput := lit ''dna'' \<rparr>"] h t c
    by simp
qed

end
